theory Spec2Isabelle
  imports Main "HOL-Library.Multiset" "HOL-Library.AList"
begin

section \<open>Data model of the board (src/components/KanbanBoard.tsx)\<close>

text \<open>
  \<^verbatim>\<open>type LinkItem = { label: string; href: string }\<close> and
  \<^verbatim>\<open>type KanbanItem = { id: string; title: string; description?: string; links?: LinkItem[] }\<close>.
  The field \<^verbatim>\<open>id\<close> is called \<open>ident\<close> here, since \<open>id\<close> is the identity function of HOL.
  An absent optional field is \<open>None\<close>.
\<close>

record LinkItem =
  label :: string
  href :: string

record KanbanItem =
  ident :: string
  title :: string
  description :: "string option"
  links :: "LinkItem list option"

text \<open>
  \<^verbatim>\<open>type ColumnKey = "todo" | "doing" | "done" | "temp"\<close>. The order of \<open>columnKeys\<close> is the
  order in which \<^verbatim>\<open>Object.keys\<close> and \<^verbatim>\<open>Object.entries\<close> enumerate a board: every board
  object is built from the literal \<^verbatim>\<open>{ todo: [], doing: [], done: [], temp: [] }\<close> or by
  spreading an earlier board, which keeps the position of an existing key.
\<close>

datatype ColumnKey = Todo | Doing | Done | Temp

definition columnKeys :: "ColumnKey list" where
  "columnKeys = [Todo, Doing, Done, Temp]"

fun key_string :: "ColumnKey \<Rightarrow> string" where
  "key_string Todo = ''todo''"
| "key_string Doing = ''doing''"
| "key_string Done = ''done''"
| "key_string Temp = ''temp''"

definition columnKey_of :: "string \<Rightarrow> ColumnKey option" where
  "columnKey_of k =
     (if k = ''todo'' then Some Todo
      else if k = ''doing'' then Some Doing
      else if k = ''done'' then Some Done
      else if k = ''temp'' then Some Temp
      else None)"

text \<open>
  \<^verbatim>\<open>type BoardState = Record<ColumnKey, KanbanItem[]>\<close>: one sequence per lane.
  \<^verbatim>\<open>board[key]\<close> is \<open>board key\<close>, and \<^verbatim>\<open>{ ...prev, [key]: xs }\<close> is \<open>prev(key := xs)\<close>.
\<close>

type_synonym BoardState = "ColumnKey \<Rightarrow> KanbanItem list"

definition initialBoard :: BoardState where
  "initialBoard = (\<lambda>k. [])"

text \<open>
  The handlers index the board with strings that are only asserted to be column keys
  (\<^verbatim>\<open>as ColumnKey\<close>). For such a string \<open>k\<close>, \<^verbatim>\<open>board[k]\<close> is the array \<open>board c\<close> when
  \<open>columnKey_of k = Some c\<close>. When \<open>columnKey_of k = None\<close> it is not an array:
  \<^verbatim>\<open>undefined\<close> for an unknown key, and a member of \<^verbatim>\<open>Object.prototype\<close> (a function, or
  the prototype object itself) for an inherited name. In both cases spreading it
  (\<^verbatim>\<open>[...board[k]]\<close>) or calling an array method on it throws a TypeError.
\<close>

text \<open>
  The names every plain object inherits from \<^verbatim>\<open>Object.prototype\<close> (ECMAScript,
  including Annex B). The board is always a plain object, and the operator \<^verbatim>\<open>in\<close>
  looks a name up along the prototype chain, so \<^verbatim>\<open>id in board\<close> holds for the four own
  keys and for these names.
\<close>

definition objectPrototypeKeys :: "string list" where
  "objectPrototypeKeys =
     [''constructor'', ''hasOwnProperty'', ''isPrototypeOf'', ''propertyIsEnumerable'',
      ''toLocaleString'', ''toString'', ''valueOf'', ''__proto__'',
      ''__defineGetter__'', ''__defineSetter__'', ''__lookupGetter__'', ''__lookupSetter__'']"

definition in_board :: "string \<Rightarrow> bool" where
  "in_board k \<longleftrightarrow> k \<in> set (map key_string columnKeys) \<or> k \<in> set objectPrototypeKeys"

datatype js_error =
  TypeError
| UndefinedEntry
| ExtraLane

text \<open>
  \<open>TypeError\<close>: the statement throws (a non-array is spread or is asked for an array
  method). \<open>UndefinedEntry\<close>: the code stores \<^verbatim>\<open>undefined\<close> as an element of a
  column, read from an array at an index it does not have; no \<open>KanbanItem list\<close>
  represents that sequence, and the render that follows throws on \<^verbatim>\<open>item.id\<close>.
  \<open>ExtraLane\<close>: the initial load sets a board with a lane beside the four, declared by
  a row of \<^verbatim>\<open>kanban_columns\<close>; no \<open>BoardState\<close> represents that board (for a key such
  as "archive", which \<^verbatim>\<open>columnMeta\<close> does not know, the render of that lane throws on
  \<^verbatim>\<open>meta.bg\<close>).
\<close>

section \<open>Array helpers of JavaScript\<close>

text \<open>\<^verbatim>\<open>xs.findIndex(p)\<close>: the index of the first element satisfying \<open>p\<close>, or \<open>-1\<close>.\<close>

fun findIndexFrom :: "('a \<Rightarrow> bool) \<Rightarrow> 'a list \<Rightarrow> int \<Rightarrow> int" where
  "findIndexFrom p [] i = -1"
| "findIndexFrom p (x # xs) i = (if p x then i else findIndexFrom p xs (i + 1))"

definition findIndex :: "('a \<Rightarrow> bool) \<Rightarrow> 'a list \<Rightarrow> int" where
  "findIndex p xs = findIndexFrom p xs 0"

text \<open>\<^verbatim>\<open>xs[i]\<close>: \<^verbatim>\<open>undefined\<close> (\<open>None\<close>) outside \<open>0 .. length - 1\<close>.\<close>

definition at_index :: "'a list \<Rightarrow> int \<Rightarrow> 'a option" where
  "at_index xs i = (if 0 \<le> i \<and> nat i < length xs then Some (xs ! nat i) else None)"

text \<open>
  A relative index of \<^verbatim>\<open>slice\<close> and \<^verbatim>\<open>splice\<close>: a negative index counts from the end,
  and the result is clamped to \<open>0 .. length\<close>.
\<close>

definition relIndex :: "int \<Rightarrow> nat \<Rightarrow> nat" where
  "relIndex i n = (if i < 0 then nat (max (int n + i) 0) else min (nat i) n)"

definition slice :: "'a list \<Rightarrow> int \<Rightarrow> int \<Rightarrow> 'a list" where
  "slice xs start stop =
     (let k = relIndex start (length xs); final = relIndex stop (length xs)
      in take (final - k) (drop k xs))"

text \<open>
  Modelled from the spec: \<^verbatim>\<open>arrayMove\<close> is imported from the package
  \<^verbatim>\<open>@dnd-kit/sortable\<close> and is not part of the source tree. The spec describes it as
  "splice the identity from fromIndex to toIndex in the column's sequence"; the
  definition follows the package's implementation of that sentence,
  \<^verbatim>\<open>newArray.splice(to < 0 ? newArray.length + to : to, 0, newArray.splice(from, 1)[0])\<close>
  on a copy of the array. The arguments are evaluated left to right, so the target
  position is computed from the length before the removal. When \<^verbatim>\<open>splice(from, 1)\<close>
  removes nothing, \<^verbatim>\<open>undefined\<close> is inserted.
\<close>

definition arrayMove :: "'a list \<Rightarrow> int \<Rightarrow> int \<Rightarrow> js_error + 'a list" where
  "arrayMove array from to =
     (let n = length array;
          target = (if to < 0 then int n + to else to);
          f = relIndex from n
      in if f < n
         then (let removed = array ! f;
                   rest = take f array @ drop (Suc f) array;
                   t = relIndex target (length rest)
               in Inr (take t rest @ [removed] @ drop t rest))
         else Inl UndefinedEntry)"

text \<open>The template \<^verbatim>\<open>`Link ${i + 1}`\<close> prints a number in decimal.\<close>

function string_of_nat :: "nat \<Rightarrow> string" where
  "string_of_nat n =
     (if n < 10 then [char_of (48 + n)]
      else string_of_nat (n div 10) @ [char_of (48 + n mod 10)])"
  by pat_completeness auto
termination
  by (relation "measure (\<lambda>n. n)") auto

section \<open>Records of the remote store\<close>

text \<open>
  A row of \<^verbatim>\<open>kanban_cards\<close> as the client delivers it. \<open>row_id\<close> is \<^verbatim>\<open>String(c.id)\<close>;
  \<open>row_links\<close> is \<open>None\<close> when \<^verbatim>\<open>Array.isArray(c.links)\<close> fails; \<open>column_key\<close> is
  \<open>None\<close> for \<^verbatim>\<open>null\<close> or \<^verbatim>\<open>undefined\<close>, the one case the operator \<^verbatim>\<open>??\<close> replaces.
\<close>

record RawLink =
  raw_label :: "string option"
  raw_href :: string

record CardRow =
  row_id :: string
  row_title :: string
  row_description :: "string option"
  row_links :: "RawLink list option"
  column_key :: "string option"

definition mapLinks :: "RawLink list \<Rightarrow> LinkItem list" where
  "mapLinks ls =
     map (\<lambda>(l, i). \<lparr>label = (case raw_label l of
                                  None \<Rightarrow> ''Link '' @ string_of_nat (i + 1)
                                | Some x \<Rightarrow> x),
                      href = raw_href l\<rparr>)
         (zip ls [0..<length ls])"

definition toItem :: "CardRow \<Rightarrow> KanbanItem" where
  "toItem c = \<lparr>ident = row_id c, title = row_title c,
               description = row_description c,
               links = map_option mapLinks (row_links c)\<rparr>"

definition colKeyOf :: "CardRow \<Rightarrow> string" where
  "colKeyOf c = (case column_key c of None \<Rightarrow> ''todo'' | Some k \<Rightarrow> k)"

section \<open>ensureUniqueItems\<close>

text \<open>
  The callback of \<^verbatim>\<open>items.filter\<close>: an item whose id is in \<^verbatim>\<open>seenIds\<close> is dropped,
  any other is kept and its id added. The set is shared by the four columns.
\<close>

fun filterSeen :: "string set \<Rightarrow> KanbanItem list \<Rightarrow> KanbanItem list \<times> string set" where
  "filterSeen seenIds [] = ([], seenIds)"
| "filterSeen seenIds (item # items) =
     (if ident item \<in> seenIds then filterSeen seenIds items
      else (let (kept, seen') = filterSeen (insert (ident item) seenIds) items
            in (item # kept, seen')))"

fun ensureLoop ::
  "ColumnKey list \<Rightarrow> BoardState \<Rightarrow> string set \<Rightarrow> BoardState \<Rightarrow> BoardState" where
  "ensureLoop [] boardState seenIds cleanBoard = cleanBoard"
| "ensureLoop (colKey # rest) boardState seenIds cleanBoard =
     (let (kept, seen') = filterSeen seenIds (boardState colKey)
      in ensureLoop rest boardState seen' (cleanBoard(colKey := kept)))"

definition ensureUniqueItems :: "BoardState \<Rightarrow> BoardState" where
  "ensureUniqueItems boardState = ensureLoop columnKeys boardState {} initialBoard"

text \<open>The invariant of the data model: no identity twice on the board.\<close>

definition all_items :: "BoardState \<Rightarrow> KanbanItem list" where
  "all_items board = concat (map board columnKeys)"

definition unique_board :: "BoardState \<Rightarrow> bool" where
  "unique_board board \<longleftrightarrow> distinct (map ident (all_items board))"

text \<open>
  The columns \<^verbatim>\<open>Object.entries\<close> visits before a column, and the ids \<^verbatim>\<open>seenIds\<close> holds
  when the loop of \<^verbatim>\<open>ensureUniqueItems\<close> reaches that column on a board.
\<close>

fun earlier :: "ColumnKey \<Rightarrow> ColumnKey list" where
  "earlier Todo = []"
| "earlier Doing = [Todo]"
| "earlier Done = [Todo, Doing]"
| "earlier Temp = [Todo, Doing, Done]"

definition idsOf :: "KanbanItem list \<Rightarrow> string set" where
  "idsOf xs = ident ` set xs"

definition seenBefore :: "BoardState \<Rightarrow> ColumnKey \<Rightarrow> string set" where
  "seenBefore b k = idsOf (concat (map b (earlier k)))"

section \<open>Container resolution\<close>

definition findContainer :: "BoardState \<Rightarrow> string \<Rightarrow> string option" where
  "findContainer board i =
     (if in_board i then Some i
      else map_option key_string
             (List.find (\<lambda>key. List.find (\<lambda>item. ident item = i) (board key) \<noteq> None)
                columnKeys))"

section \<open>Component state and remote calls\<close>

text \<open>
  The state the claims are about: \<^verbatim>\<open>board\<close>, \<^verbatim>\<open>error\<close> (the dismissible message),
  \<^verbatim>\<open>loading\<close>, \<^verbatim>\<open>activeId\<close>, and \<^verbatim>\<open>localUpdateRef\<close> (the pending-write marker set).
  \<open>calls\<close> is the log of the writes issued to the remote store, oldest first; the
  timestamp \<^verbatim>\<open>updated_at\<close> of an update is not recorded. The form fields of the Add
  dialog are inputs of \<open>handleAdd_submit\<close>, and the connectivity indicator is left out.
\<close>

datatype RemoteCall =
  InsertCard string "string option" "LinkItem list option" ColumnKey nat
| DeleteCard string
| UpdateCard string string "string option" "LinkItem list option"
| UpdateColumn string ColumnKey
| UpdatePosition string nat

record State =
  board :: BoardState
  error :: "string option"
  loading :: bool
  activeId :: "string option"
  localUpdateRef :: "string set"
  calls :: "RemoteCall list"

definition initialState :: State where
  "initialState = \<lparr>board = initialBoard, error = None, loading = True, activeId = None,
                    localUpdateRef = {}, calls = []\<rparr>"

text \<open>
  What an awaited call of the store client comes back with: the object
  \<^verbatim>\<open>{ data, error }\<close> (\<open>resp_error\<close> is \<^verbatim>\<open>error.message\<close> when \<^verbatim>\<open>error\<close> is set), or a
  rejected promise. An asynchronous handler is modelled in two parts, the part that runs
  up to the \<^verbatim>\<open>await\<close> and the part that runs on the response; other events may be
  processed between the two.
\<close>

datatype 'a response =
  Response (resp_error: "string option") (resp_data: "'a option")
| Rejected

text \<open>
  \<^verbatim>\<open>persistColumnPositions(col)\<close> reads \<^verbatim>\<open>board[col]\<close> from the closure of the render in
  which its caller was created, not from the updater's \<^verbatim>\<open>prev\<close>; that board is the
  argument \<open>closure\<close> here and in the callers. It has its own \<^verbatim>\<open>try/catch\<close> and never throws.
\<close>

definition persistColumnPositions :: "BoardState \<Rightarrow> ColumnKey \<Rightarrow> RemoteCall list" where
  "persistColumnPositions closure col =
     (let items = closure col
      in if length items = 0 then []
         else map (\<lambda>(it, idx). UpdatePosition (ident it) idx) (zip items [0..<length items]))"

section \<open>Initial load\<close>

text \<open>
  The object \<^verbatim>\<open>next\<close> that \<^verbatim>\<open>fetchData\<close> fills starts as the four lanes, but both loops
  index it with strings of the store (\<^verbatim>\<open>col.key\<close>, \<^verbatim>\<open>c.column_key\<close>), so it can get
  further own properties. \<open>lb_lanes\<close> are the four lanes, \<open>lb_extra\<close> the further own
  properties in the order of their creation, and \<open>lb_proto\<close> is \<open>Some xs\<close> once the
  assignment \<^verbatim>\<open>next["__proto__"] = xs\<close> has made the array \<open>xs\<close> the prototype of
  \<^verbatim>\<open>next\<close> (that assignment runs the setter of \<^verbatim>\<open>Object.prototype\<close> and creates no own
  property).
\<close>

record LoadBoard =
  lb_lanes :: BoardState
  lb_extra :: "(string \<times> KanbanItem list) list"
  lb_proto :: "KanbanItem list option"

definition emptyLoad :: LoadBoard where
  "emptyLoad = \<lparr>lb_lanes = initialBoard, lb_extra = [], lb_proto = None\<rparr>"

text \<open>
  \<^verbatim>\<open>next[k]\<close> where it is an array, and \<open>None\<close> where it is not (\<^verbatim>\<open>undefined\<close>, or a
  value inherited from the prototype that is no array: a function, a number, a card,
  \<^verbatim>\<open>Object.prototype\<close>), so that spreading it throws. \<^verbatim>\<open>next[k] = xs\<close> replaces an own
  property in place, appends a new one, and for "__proto__" sets the prototype.
\<close>

definition load_get :: "LoadBoard \<Rightarrow> string \<Rightarrow> KanbanItem list option" where
  "load_get next k =
     (case columnKey_of k of
        Some c \<Rightarrow> Some (lb_lanes next c)
      | None \<Rightarrow> if k = ''__proto__'' then lb_proto next else map_of (lb_extra next) k)"

definition load_set :: "LoadBoard \<Rightarrow> string \<Rightarrow> KanbanItem list \<Rightarrow> LoadBoard" where
  "load_set next k xs =
     (case columnKey_of k of
        Some c \<Rightarrow> next\<lparr>lb_lanes := (lb_lanes next)(c := xs)\<rparr>
      | None \<Rightarrow> if k = ''__proto__'' then next\<lparr>lb_proto := Some xs\<rparr>
                else next\<lparr>lb_extra := AList.update k xs (lb_extra next)\<rparr>)"

text \<open>
  What the two assignments keep: the further own properties have different names, none
  of them a lane's and none "__proto__".
\<close>

definition wf_load :: "LoadBoard \<Rightarrow> bool" where
  "wf_load b \<longleftrightarrow> distinct (map fst (lb_extra b))
     \<and> (\<forall>k\<in>fst ` set (lb_extra b). columnKey_of k = None \<and> k \<noteq> ''__proto__'')"

text \<open>
  \<^verbatim>\<open>Object.entries\<close> enumerates the own properties whose name is an array index (the
  decimal numeral, without leading zero, of a number below \<open>2^32 - 1\<close>) first, in
  ascending order, and then the others in the order of their creation.
\<close>

definition arrayIndex :: "string \<Rightarrow> nat option" where
  "arrayIndex k =
     (let n = foldl (\<lambda>a c. 10 * a + (of_char c - 48)) (0::nat) k
      in if k \<noteq> [] \<and> list_all (\<lambda>c. c \<in> set ''0123456789'') k
            \<and> (k = ''0'' \<or> hd k \<noteq> CHR ''0'') \<and> n < 4294967295
         then Some n else None)"

definition entries :: "LoadBoard \<Rightarrow> (string \<times> KanbanItem list) list" where
  "entries next =
     sort_key (\<lambda>(k, xs). case arrayIndex k of Some n \<Rightarrow> n | None \<Rightarrow> 0)
       (filter (\<lambda>(k, xs). arrayIndex k \<noteq> None) (lb_extra next))
     @ map (\<lambda>c. (key_string c, lb_lanes next c)) columnKeys
     @ filter (\<lambda>(k, xs). arrayIndex k = None) (lb_extra next)"

text \<open>
  The loop of \<^verbatim>\<open>ensureUniqueItems\<close> over the entries of a board with further lanes; the
  result lists the entries of \<^verbatim>\<open>cleanBoard\<close>, which has the same keys in the same order.
\<close>

fun filterLanes ::
  "string set \<Rightarrow> (string \<times> KanbanItem list) list
     \<Rightarrow> (string \<times> KanbanItem list) list \<times> string set" where
  "filterLanes seenIds [] = ([], seenIds)"
| "filterLanes seenIds ((colKey, items) # rest) =
     (let (kept, seen') = filterSeen seenIds items;
          (rest', seen'') = filterLanes seen' rest
      in ((colKey, kept) # rest', seen''))"

fun partitionCards :: "CardRow list \<Rightarrow> LoadBoard \<Rightarrow> js_error + LoadBoard" where
  "partitionCards [] next = Inr next"
| "partitionCards (c # cs) next =
     (case load_get next (colKeyOf c) of
        None \<Rightarrow> Inl TypeError
      | Some xs \<Rightarrow> partitionCards cs (load_set next (colKeyOf c) (xs @ [toItem c])))"

text \<open>
  The answer of the two queries: the keys of the rows of \<^verbatim>\<open>kanban_columns\<close> (as
  property names) and the rows of \<^verbatim>\<open>kanban_cards\<close>, each \<open>None\<close> when the client
  returns \<^verbatim>\<open>data: null\<close>, which \<^verbatim>\<open>|| []\<close> replaces; or a rejected promise.
\<close>

datatype fetch_reply =
  Fetched "string list option" "CardRow list option"
| FetchRejected

definition orEmpty :: "'a list option \<Rightarrow> 'a list" where
  "orEmpty data = (case data of None \<Rightarrow> [] | Some xs \<Rightarrow> xs)"

text \<open>
  What the load leaves: a state of the component, or, when the board that is set has
  further lanes, the entries of that board (the load then also clears the error and
  ends the loading phase).
\<close>

datatype loaded =
  LoadState State
| LoadLanes "(string \<times> KanbanItem list) list"

definition fetchData :: "fetch_reply \<Rightarrow> State \<Rightarrow> loaded" where
  "fetchData reply s =
     (case reply of
        FetchRejected \<Rightarrow>
          LoadState (s\<lparr>error := Some ''Failed to load board data. Please refresh the page.'',
                       loading := False\<rparr>)
      | Fetched columns cards \<Rightarrow>
          (let next0 = fold (\<lambda>colKey next. load_set next colKey []) (orEmpty columns) emptyLoad
           in case partitionCards (orEmpty cards) next0 of
                Inl e \<Rightarrow>
                  LoadState (s\<lparr>error := Some ''Failed to load board data. Please refresh the page.'',
                               loading := False\<rparr>)
              | Inr next \<Rightarrow>
                  if lb_extra next = []
                  then LoadState (s\<lparr>error := None, board := ensureUniqueItems (lb_lanes next),
                                    loading := False\<rparr>)
                  else LoadLanes (fst (filterLanes {} (entries next)))))"

section \<open>Ingestion of real-time events\<close>

datatype payload =
  INSERT "CardRow option"
| UPDATE "CardRow option"
| DELETE "string option"
| OtherEvent

text \<open>
  The loop \<^verbatim>\<open>for (const colKey of Object.keys(newBoard)) newBoard[colKey] =
  newBoard[colKey].filter(item => item.id !== cardId)\<close>.
\<close>

definition removeFromAll :: "string \<Rightarrow> BoardState \<Rightarrow> BoardState" where
  "removeFromAll cardId prev =
     fold (\<lambda>colKey newBoard. newBoard(colKey := filter (\<lambda>item. ident item \<noteq> cardId) (newBoard colKey)))
       columnKeys prev"

text \<open>
  \<open>DELETE (Some i)\<close> carries \<^verbatim>\<open>String(payload.old.id)\<close>. A TypeError thrown inside a state
  updater leaves no next board.
\<close>

definition realtime :: "payload \<Rightarrow> State \<Rightarrow> js_error + State" where
  "realtime p s =
     (case p of
        INSERT None \<Rightarrow> Inr s
      | INSERT (Some newCard) \<Rightarrow>
          (let colKey = colKeyOf newCard; newItem = toItem newCard; prev = board s
           in case columnKey_of colKey of
                None \<Rightarrow> Inl TypeError
              | Some k \<Rightarrow> Inr (s\<lparr>board := ensureUniqueItems (prev(k := newItem # prev k))\<rparr>))
      | UPDATE None \<Rightarrow> Inr s
      | UPDATE (Some updatedCard) \<Rightarrow>
          (let cardId = row_id updatedCard
           in if cardId \<in> localUpdateRef s then Inr s
              else (let newColKey = colKeyOf updatedCard; updatedItem = toItem updatedCard;
                        newBoard = removeFromAll cardId (board s)
                    in case columnKey_of newColKey of
                         None \<Rightarrow> Inl TypeError
                       | Some k \<Rightarrow>
                           Inr (s\<lparr>board := ensureUniqueItems (newBoard(k := newBoard k @ [updatedItem]))\<rparr>)))
      | DELETE None \<Rightarrow> Inr s
      | DELETE (Some deletedId) \<Rightarrow>
          Inr (s\<lparr>board := ensureUniqueItems (removeFromAll deletedId (board s))\<rparr>)
      | OtherEvent \<Rightarrow> Inr s)"

section \<open>Drag handlers\<close>

text \<open>
  A drag callback runs on the rendered board: the \<^verbatim>\<open>board\<close> of its closure and the
  \<^verbatim>\<open>prev\<close> of its state updater are the same value, the board of the state it is
  applied to. \<open>over_id\<close> is \<open>None\<close> when \<^verbatim>\<open>over\<close> is null. \<open>below\<close> is the outcome of the
  geometric test \<^verbatim>\<open>active.rect.current.translated && translated.top > over.rect.top +
  over.rect.height\<close>, which the event decides.
\<close>

record DragEvent =
  active_id :: string
  over_id :: "string option"
  below :: bool

definition handleDragStart :: "string \<Rightarrow> State \<Rightarrow> State" where
  "handleDragStart i s = s\<lparr>activeId := Some i\<rparr>"

definition dragOverIndex :: "string \<Rightarrow> bool \<Rightarrow> KanbanItem list \<Rightarrow> int" where
  "dragOverIndex overId isBelowOverItem overItems =
     (let overIndex = findIndex (\<lambda>item. ident item = overId) overItems
      in if in_board overId then int (length overItems) + 1
         else (let modifier = (if isBelowOverItem then 1 else 0)
               in if overIndex \<ge> 0 then overIndex + modifier else int (length overItems) + 1))"

definition handleDragOver :: "DragEvent \<Rightarrow> State \<Rightarrow> js_error + State" where
  "handleDragOver ev s =
     (case over_id ev of
        None \<Rightarrow> Inr s
      | Some overId \<Rightarrow>
          (let activeId = active_id ev; prev = board s
           in case (findContainer prev activeId, findContainer prev overId) of
                (Some activeContainer, Some overContainer) \<Rightarrow>
                  if activeContainer \<noteq> overContainer then
                    (case (columnKey_of activeContainer, columnKey_of overContainer) of
                       (Some a, Some ov) \<Rightarrow>
                         (let activeItems = prev a; overItems = prev ov;
                              activeIndex = findIndex (\<lambda>item. ident item = activeId) activeItems;
                              newIndex = dragOverIndex overId (below ev) overItems
                          in case at_index activeItems activeIndex of
                               None \<Rightarrow> Inl UndefinedEntry
                             | Some moved \<Rightarrow>
                                 Inr (s\<lparr>board := prev
                                        (a := filter (\<lambda>item. ident item \<noteq> activeId) (prev a),
                                         ov := slice overItems 0 newIndex @ [moved]
                                                 @ slice overItems newIndex (int (length overItems)))\<rparr>))
                     | _ \<Rightarrow> Inl TypeError)
                  else Inr s
              | _ \<Rightarrow> Inr s))"

text \<open>
  The part of \<^verbatim>\<open>updateCardColumnAndPositions\<close> that runs before its first \<^verbatim>\<open>await\<close>
  (inside \<^verbatim>\<open>handleDragEnd\<close>), the part that runs on the response, and the timer that
  removes the marker one second after a successful write.
\<close>

definition updateCardColumnAndPositions_begin ::
  "string \<Rightarrow> ColumnKey \<Rightarrow> ColumnKey \<Rightarrow> State \<Rightarrow> State" where
  "updateCardColumnAndPositions_begin cardId newCol oldCol s =
     s\<lparr>localUpdateRef := insert cardId (localUpdateRef s),
       calls := calls s @ [UpdateColumn cardId newCol]\<rparr>"

definition updateCardColumnAndPositions_reply ::
  "BoardState \<Rightarrow> string \<Rightarrow> ColumnKey \<Rightarrow> ColumnKey \<Rightarrow> unit response \<Rightarrow> State \<Rightarrow> State" where
  "updateCardColumnAndPositions_reply closure cardId newCol oldCol reply s =
     (case reply of
        Rejected \<Rightarrow>
          s\<lparr>error := Some ''Failed to move task. Please check your connection.'',
            localUpdateRef := localUpdateRef s - {cardId}\<rparr>
      | Response (Some msg) d \<Rightarrow>
          s\<lparr>error := Some (''Failed to move task: '' @ msg),
            localUpdateRef := localUpdateRef s - {cardId}\<rparr>
      | Response None d \<Rightarrow>
          s\<lparr>calls := calls s @ persistColumnPositions closure newCol
                            @ persistColumnPositions closure oldCol\<rparr>)"

definition markerTimeout :: "string \<Rightarrow> State \<Rightarrow> State" where
  "markerTimeout cardId s = s\<lparr>localUpdateRef := localUpdateRef s - {cardId}\<rparr>"

definition handleDragEnd :: "DragEvent \<Rightarrow> State \<Rightarrow> js_error + State" where
  "handleDragEnd ev s =
     (case over_id ev of
        None \<Rightarrow> Inr (s\<lparr>activeId := None\<rparr>)
      | Some overId \<Rightarrow>
          (let activeId = active_id ev; board = board s
           in case (findContainer board activeId, findContainer board overId) of
                (Some activeContainer, Some overContainer) \<Rightarrow>
                  if activeContainer = overContainer then
                    (case columnKey_of overContainer of
                       None \<Rightarrow> Inl TypeError
                     | Some c \<Rightarrow>
                         (let activeIndex = findIndex (\<lambda>item. ident item = activeId) (board c);
                              overIndex = findIndex (\<lambda>item. ident item = overId) (board c)
                          in if activeIndex \<noteq> overIndex then
                               (case arrayMove (board c) activeIndex overIndex of
                                  Inl e \<Rightarrow> Inl e
                                | Inr moved \<Rightarrow>
                                    Inr (s\<lparr>board := board(c := moved),
                                           calls := calls s @ persistColumnPositions board c,
                                           activeId := None\<rparr>))
                             else Inr (s\<lparr>activeId := None\<rparr>)))
                  else
                    (case columnKey_of activeContainer of
                       None \<Rightarrow> Inl TypeError
                     | Some a \<Rightarrow>
                         (case List.find (\<lambda>item. ident item = activeId) (board a) of
                            None \<Rightarrow> Inr (s\<lparr>activeId := None\<rparr>)
                          | Some activeItem \<Rightarrow>
                              (case columnKey_of overContainer of
                                 None \<Rightarrow> Inl TypeError
                               | Some ov \<Rightarrow>
                                   (let newBoard = board(a := filter (\<lambda>item. ident item \<noteq> activeId) (board a));
                                        newBoard = newBoard(ov := newBoard ov @ [activeItem])
                                    in Inr ((updateCardColumnAndPositions_begin activeId ov a
                                              (s\<lparr>board := ensureUniqueItems newBoard\<rparr>))
                                            \<lparr>activeId := None\<rparr>)))))
              | _ \<Rightarrow> Inr (s\<lparr>activeId := None\<rparr>)))"

section \<open>Add, delete, edit\<close>

text \<open>
  The fields of \<open>AddForm\<close> are \<^verbatim>\<open>newTitle\<close>, \<^verbatim>\<open>newDesc\<close>, \<^verbatim>\<open>newColumn\<close>, and for
  \<open>form_hrefs\<close> the list \<^verbatim>\<open>newLinks.split(',').map(s => s.trim()).filter(Boolean)\<close>.
  \<^verbatim>\<open>handleAdd\<close> has no \<^verbatim>\<open>try/catch\<close> and no \<^verbatim>\<open>else\<close>: a response with an error, without
  data, or a rejected promise changes nothing.
\<close>

record AddForm =
  form_title :: string
  form_desc :: string
  form_hrefs :: "string list"
  form_column :: ColumnKey

definition handleAdd_submit :: "AddForm \<Rightarrow> State \<Rightarrow> State" where
  "handleAdd_submit form s =
     (let links = map (\<lambda>(h, i). \<lparr>label = ''Link '' @ string_of_nat (i + 1), href = h\<rparr>)
                    (zip (form_hrefs form) [0..<length (form_hrefs form)])
      in s\<lparr>calls := calls s @
             [InsertCard (form_title form)
                (if form_desc form = [] then None else Some (form_desc form))
                (if length links = 0 then None else Some links)
                (form_column form) 0]\<rparr>)"

definition handleAdd_reply ::
  "BoardState \<Rightarrow> ColumnKey \<Rightarrow> CardRow response \<Rightarrow> State \<Rightarrow> State" where
  "handleAdd_reply closure newColumn reply s =
     (case reply of
        Response None (Some data) \<Rightarrow>
          (let newItem = toItem data; prev = board s
           in s\<lparr>board := ensureUniqueItems (prev(newColumn := newItem # prev newColumn)),
                calls := calls s @ persistColumnPositions closure newColumn\<rparr>)
      | _ \<Rightarrow> s)"

definition handleDelete_call :: "ColumnKey \<Rightarrow> string \<Rightarrow> State \<Rightarrow> State" where
  "handleDelete_call col i s = s\<lparr>error := None, calls := calls s @ [DeleteCard i]\<rparr>"

definition handleDelete_reply ::
  "BoardState \<Rightarrow> ColumnKey \<Rightarrow> string \<Rightarrow> unit response \<Rightarrow> State \<Rightarrow> State" where
  "handleDelete_reply closure col i reply s =
     (case reply of
        Rejected \<Rightarrow> s\<lparr>error := Some ''Failed to delete task. Please check your connection.''\<rparr>
      | Response (Some msg) d \<Rightarrow> s\<lparr>error := Some (''Failed to delete task: '' @ msg)\<rparr>
      | Response None d \<Rightarrow>
          (let prev = board s
           in s\<lparr>board := ensureUniqueItems (prev(col := filter (\<lambda>x. ident x \<noteq> i) (prev col))),
                calls := calls s @ persistColumnPositions closure col\<rparr>))"

text \<open>
  \<^verbatim>\<open>handleDelete\<close> when nothing else is processed while the remote delete is awaited.
\<close>

definition handleDelete :: "ColumnKey \<Rightarrow> string \<Rightarrow> unit response \<Rightarrow> State \<Rightarrow> State" where
  "handleDelete col i reply s = handleDelete_reply (board s) col i reply (handleDelete_call col i s)"

text \<open>
  The only caller of \<^verbatim>\<open>onEdit\<close> passes \<^verbatim>\<open>{ ...item, title, description, links }\<close>, an
  object with all four fields as own properties, so \<^verbatim>\<open>{ ...i, ...updated }\<close> is
  \<open>updated\<close>. A \<open>LinkItem\<close> has a label, so \<^verbatim>\<open>l.label ?? ...\<close> is the label.
\<close>

definition handleEdit_call :: "ColumnKey \<Rightarrow> KanbanItem \<Rightarrow> State \<Rightarrow> State" where
  "handleEdit_call col updated s =
     (let ls = (case links updated of None \<Rightarrow> [] | Some l \<Rightarrow> l)
      in s\<lparr>error := None,
           calls := calls s @
             [UpdateCard (ident updated) (title updated) (description updated)
                (if length ls = 0 then None else Some ls)]\<rparr>)"

definition handleEdit_reply ::
  "ColumnKey \<Rightarrow> KanbanItem \<Rightarrow> unit response \<Rightarrow> State \<Rightarrow> State" where
  "handleEdit_reply col updated reply s =
     (case reply of
        Rejected \<Rightarrow> s\<lparr>error := Some ''Failed to update task. Please check your connection.''\<rparr>
      | Response (Some msg) d \<Rightarrow> s\<lparr>error := Some (''Failed to update task: '' @ msg)\<rparr>
      | Response None d \<Rightarrow>
          (let prev = board s
           in s\<lparr>board := ensureUniqueItems
                  (prev(col := map (\<lambda>i. if ident i = ident updated then updated else i) (prev col)))\<rparr>))"

section \<open>Sequences of operations\<close>

text \<open>
  Everything that changes the state, as one event type; \<open>step\<close> dispatches to the
  handlers above. The responses of the remote store arrive as events of their own, at
  any time and in any order, each with the board of the closure that awaits it.
\<close>

datatype op =
  Fetch fetch_reply
| Realtime payload
| DragStart string
| DragOver DragEvent
| DragEnd DragEvent
| MoveReply BoardState string ColumnKey ColumnKey "unit response"
| MarkerTimeout string
| AddSubmit AddForm
| AddReply BoardState ColumnKey "CardRow response"
| DeleteCall ColumnKey string
| DeleteReply BoardState ColumnKey string "unit response"
| EditCall ColumnKey KanbanItem
| EditReply ColumnKey KanbanItem "unit response"
| DismissError

fun step :: "op \<Rightarrow> State \<Rightarrow> js_error + State" where
  "step (Fetch reply) s =
     (case fetchData reply s of LoadState s' \<Rightarrow> Inr s' | LoadLanes lanes \<Rightarrow> Inl ExtraLane)"
| "step (Realtime p) s = realtime p s"
| "step (DragStart i) s = Inr (handleDragStart i s)"
| "step (DragOver ev) s = handleDragOver ev s"
| "step (DragEnd ev) s = handleDragEnd ev s"
| "step (MoveReply closure cardId newCol oldCol reply) s =
     Inr (updateCardColumnAndPositions_reply closure cardId newCol oldCol reply s)"
| "step (MarkerTimeout cardId) s = Inr (markerTimeout cardId s)"
| "step (AddSubmit form) s = Inr (handleAdd_submit form s)"
| "step (AddReply closure newColumn reply) s = Inr (handleAdd_reply closure newColumn reply s)"
| "step (DeleteCall col i) s = Inr (handleDelete_call col i s)"
| "step (DeleteReply closure col i reply) s = Inr (handleDelete_reply closure col i reply s)"
| "step (EditCall col updated) s = Inr (handleEdit_call col updated s)"
| "step (EditReply col updated reply) s = Inr (handleEdit_reply col updated reply s)"
| "step DismissError s = Inr (s\<lparr>error := None\<rparr>)"

text \<open>
  The states a sequence of events goes through, the starting state first. An event whose
  handler throws, stores an undefined entry or (the load) sets a board with a further
  lane ends the sequence: it leaves no next state of this state type.
\<close>

fun trace :: "op list \<Rightarrow> State \<Rightarrow> State list" where
  "trace [] s = [s]"
| "trace (e # es) s = s # (case step e s of Inl err \<Rightarrow> [] | Inr s' \<Rightarrow> trace es s')"

section \<open>The spec's description of update ingestion\<close>

text \<open>
  The spec's words for an update event that is not suppressed: "remove the identity from
  every column, then insert it into its new declared column at the end". This is that
  sentence as a function of the event's record, its declared column and the board, to be
  compared with what \<open>realtime\<close> computes, which also deduplicates.
\<close>

definition spec_update :: "CardRow \<Rightarrow> ColumnKey \<Rightarrow> BoardState \<Rightarrow> BoardState" where
  "spec_update c k b =
     (\<lambda>col. filter (\<lambda>item. ident item \<noteq> row_id c) (b col) @ (if col = k then [toItem c] else []))"

section \<open>The spec's description of the initial partition\<close>

text \<open>
  "Partition cards into their declared column": each column holds, in the order
  fetched, the cards whose \<^verbatim>\<open>column_key ?? "todo"\<close> is that column's key.
\<close>

definition spec_partition :: "CardRow list \<Rightarrow> BoardState" where
  "spec_partition cards =
     (\<lambda>k. map toItem (filter (\<lambda>c. columnKey_of (colKeyOf c) = Some k) cards))"

section \<open>Example boards\<close>

text \<open>Concrete cards, rows and states, for the instances evaluated below.\<close>

definition mkItem :: "string \<Rightarrow> string \<Rightarrow> KanbanItem" where
  "mkItem i t = \<lparr>ident = i, title = t, description = None, links = None\<rparr>"

definition mkRow :: "string \<Rightarrow> string \<Rightarrow> string option \<Rightarrow> CardRow" where
  "mkRow i t k = \<lparr>row_id = i, row_title = t, row_description = None, row_links = None,
                  column_key = k\<rparr>"

definition exampleBoard :: BoardState where
  "exampleBoard = initialBoard
     (Todo := [mkItem ''1'' ''Write spec'', mkItem ''3'' ''Review''],
      Doing := [mkItem ''2'' ''Build''])"

definition exampleState :: State where
  "exampleState = initialState\<lparr>board := exampleBoard, loading := False\<rparr>"

text \<open>
  A session: the initial load of two cards, a confirmed add, a drag of the new card over
  the second lane and its drop on the card there, the echo of the add, a remote update
  that moves the first card, a confirmed delete, and a remote delete of an unknown card.
\<close>

definition exampleOps :: "op list" where
  "exampleOps =
     [Fetch (Fetched (Some [''todo'', ''doing'', ''done'', ''temp''])
               (Some [mkRow ''1'' ''Write spec'' None, mkRow ''2'' ''Build'' (Some ''doing'')])),
      AddReply initialBoard Todo (Response None (Some (mkRow ''3'' ''Review'' (Some ''todo'')))),
      DragOver \<lparr>active_id = ''3'', over_id = Some ''doing'', below = False\<rparr>,
      DragEnd \<lparr>active_id = ''3'', over_id = Some ''2'', below = False\<rparr>,
      Realtime (INSERT (Some (mkRow ''3'' ''Review'' (Some ''todo'')))),
      Realtime (UPDATE (Some (mkRow ''1'' ''Write the spec'' (Some ''done'')))),
      DeleteReply initialBoard Doing ''2'' (Response None None),
      Realtime (DELETE (Some ''9''))]"

section \<open>Deduplication: what ensureUniqueItems computes\<close>

lemma filterSeen_snd: "snd (filterSeen seen xs) = seen \<union> idsOf xs"
  by (induction xs arbitrary: seen) (auto simp: idsOf_def split_beta)

lemma filterSeen_ids: "idsOf (fst (filterSeen seen xs)) = idsOf xs - seen"
  by (induction xs arbitrary: seen) (auto simp: idsOf_def split_beta)

lemma filterSeen_distinct: "distinct (map ident (fst (filterSeen seen xs)))"
proof (induction xs arbitrary: seen)
  case Nil
  show ?case by simp
next
  case (Cons x xs)
  have "ident x \<notin> idsOf (fst (filterSeen (insert (ident x) seen) xs))"
    by (simp add: filterSeen_ids)
  with Cons show ?case by (simp add: split_beta idsOf_def)
qed

lemma filterSeen_filter:
  "distinct (map ident xs) \<Longrightarrow> fst (filterSeen seen xs) = filter (\<lambda>x. ident x \<notin> seen) xs"
proof (induction xs arbitrary: seen)
  case Nil
  show ?case by simp
next
  case (Cons x xs)
  have "filter (\<lambda>y. ident y \<notin> insert (ident x) seen) xs = filter (\<lambda>y. ident y \<notin> seen) xs"
    using Cons.prems by (intro filter_cong) (auto intro: rev_image_eqI)
  with Cons show ?case by (simp add: split_beta)
qed

lemma filterSeen_same:
  "distinct (map ident xs) \<Longrightarrow> idsOf xs \<inter> seen = {} \<Longrightarrow> fst (filterSeen seen xs) = xs"
  by (simp add: filterSeen_filter idsOf_def filter_id_conv) blast

text \<open>Column by column: the loop keeps, in each column, the ids not seen in an earlier one.\<close>

lemma ensureUniqueItems_column:
  "ensureUniqueItems b k = fst (filterSeen (seenBefore b k) (b k))"
  by (cases k)
     (simp_all add: ensureUniqueItems_def columnKeys_def initialBoard_def split_beta
        filterSeen_snd seenBefore_def idsOf_def Un_assoc image_Un)

lemma unique_board_iff:
  "unique_board b \<longleftrightarrow> (\<forall>k. distinct (map ident (b k)) \<and> idsOf (b k) \<inter> seenBefore b k = {})"
proof -
  have all: "(\<forall>k. P k) \<longleftrightarrow> P Todo \<and> P Doing \<and> P Done \<and> P Temp" for P
    by (metis ColumnKey.exhaust)
  show ?thesis
    unfolding all unique_board_def all_items_def columnKeys_def seenBefore_def idsOf_def
    by (auto simp: image_Un)
qed

lemma unique_ensureUniqueItems: "unique_board (ensureUniqueItems b)"
  unfolding unique_board_iff
proof (intro allI conjI)
  fix k
  show "distinct (map ident (ensureUniqueItems b k))"
    by (simp add: ensureUniqueItems_column filterSeen_distinct)
  have sub: "seenBefore (ensureUniqueItems b) k \<subseteq> seenBefore b k"
    by (cases k) (auto simp: seenBefore_def idsOf_def ensureUniqueItems_column
        dest: subsetD [OF equalityD1 [OF filterSeen_ids [unfolded idsOf_def]], OF imageI])
  show "idsOf (ensureUniqueItems b k) \<inter> seenBefore (ensureUniqueItems b) k = {}"
    using sub by (auto simp: ensureUniqueItems_column filterSeen_ids)
qed

lemma ensureUniqueItems_unique: "unique_board b \<Longrightarrow> ensureUniqueItems b = b"
  by (rule ext) (simp add: unique_board_iff ensureUniqueItems_column filterSeen_same)

section \<open>Array helpers: facts\<close>

lemma findIndexFrom_find:
  "(case List.find p xs of
      None \<Rightarrow> findIndexFrom p xs i = -1
    | Some x \<Rightarrow> i \<le> findIndexFrom p xs i \<and> nat (findIndexFrom p xs i - i) < length xs
               \<and> xs ! nat (findIndexFrom p xs i - i) = x)"
  if "0 \<le> i"
  using that
proof (induction xs arbitrary: i)
  case Nil
  show ?case by simp
next
  case (Cons y ys)
  show ?case
  proof (cases "p y")
    case True
    then show ?thesis by simp
  next
    case False
    have ih: "case List.find p ys of
        None \<Rightarrow> findIndexFrom p ys (i + 1) = -1
      | Some x \<Rightarrow> i + 1 \<le> findIndexFrom p ys (i + 1)
                 \<and> nat (findIndexFrom p ys (i + 1) - (i + 1)) < length ys
                 \<and> ys ! nat (findIndexFrom p ys (i + 1) - (i + 1)) = x"
      using Cons.IH [of "i + 1"] Cons.prems by simp
    show ?thesis
    proof (cases "List.find p ys")
      case None
      with ih False show ?thesis by simp
    next
      case (Some x)
      with ih have a: "i + 1 \<le> findIndexFrom p ys (i + 1)"
        and b: "nat (findIndexFrom p ys (i + 1) - (i + 1)) < length ys"
        and c: "ys ! nat (findIndexFrom p ys (i + 1) - (i + 1)) = x"
        by simp_all
      have d: "nat (findIndexFrom p ys (i + 1) - i) = Suc (nat (findIndexFrom p ys (i + 1) - (i + 1)))"
        using a by linarith
      show ?thesis using False Some a b c d by simp
    qed
  qed
qed

lemma at_index_findIndex: "at_index xs (findIndex p xs) = List.find p xs"
  using findIndexFrom_find [of 0 p xs]
  by (auto simp: at_index_def findIndex_def split: option.splits)

lemma findIndex_range:
  "findIndex p xs = -1 \<or> (0 \<le> findIndex p xs \<and> findIndex p xs < int (length xs))"
  using findIndexFrom_find [of 0 p xs]
  by (auto simp: findIndex_def split: option.splits)

lemma find_ident_Some:
  "List.find (\<lambda>item. ident item = i) xs = Some x \<Longrightarrow> x \<in> set xs \<and> ident x = i"
  by (auto simp: find_Some_iff)

lemma find_ident_None:
  "List.find (\<lambda>item. ident item = i) xs = None \<longleftrightarrow> i \<notin> idsOf xs"
  by (auto simp: find_None_iff idsOf_def)

lemma slice_front: "slice xs 0 j = take (relIndex j (length xs)) xs"
  by (simp add: slice_def relIndex_def)

lemma slice_back: "slice xs j (int (length xs)) = drop (relIndex j (length xs)) xs"
  by (simp add: slice_def relIndex_def)

lemma relIndex_nonneg: "0 \<le> j \<Longrightarrow> relIndex j n = min (nat j) n"
  by (simp add: relIndex_def)

lemma arrayMove_mset:
  assumes "relIndex from (length xs) < length xs"
  shows "\<exists>ys. arrayMove xs from to = Inr ys \<and> mset ys = mset xs"
proof -
  define f where "f = relIndex from (length xs)"
  define rest where "rest = take f xs @ drop (Suc f) xs"
  have f: "f < length xs" using assms by (simp add: f_def)
  have "xs = take f xs @ xs ! f # drop (Suc f) xs"
    using f by (rule id_take_nth_drop)
  then have "mset xs = mset rest + {#xs ! f#}"
    unfolding rest_def by (metis mset.simps(2) mset_append add_mset_add_single union_mset_add_mset_right)
  moreover have "mset (take t rest @ [xs ! f] @ drop t rest) = mset rest + {#xs ! f#}" for t
    by (metis append_take_drop_id mset_append add_mset_add_single mset.simps(2) union_mset_add_mset_right append_Cons append_Nil)
  ultimately show ?thesis
    using f by (simp add: arrayMove_def Let_def f_def [symmetric] rest_def [symmetric])
qed

lemma removeFromAll_eq:
  "removeFromAll i b = (\<lambda>k. filter (\<lambda>item. ident item \<noteq> i) (b k))"
  by (rule ext, case_tac k) (simp_all add: removeFromAll_def columnKeys_def)

lemma mset_all_items:
  "mset (all_items b) = mset (b Todo) + mset (b Doing) + mset (b Done) + mset (b Temp)"
  by (simp add: all_items_def columnKeys_def)

lemma mset_all_items_upd:
  "mset (all_items (b(k := xs))) + mset (b k) = mset (all_items b) + mset xs"
  by (cases k) (simp_all add: mset_all_items)

lemma unique_board_mset:
  "mset (all_items b') = mset (all_items b) \<Longrightarrow> unique_board b \<Longrightarrow> unique_board b'"
  unfolding unique_board_def
  by (metis mset_map mset_eq_imp_distinct_iff)

section \<open>Columns, indices and multisets: facts\<close>

lemma columnKey_of_key_string [simp]: "columnKey_of (key_string c) = Some c"
  by (cases c) (simp_all add: columnKey_of_def)

lemma columnKey_of_Some: "columnKey_of k = Some c \<Longrightarrow> k = key_string c"
  by (auto simp: columnKey_of_def split: if_splits)

lemma key_string_inject [simp]: "key_string a = key_string b \<longleftrightarrow> a = b"
  by (cases a; cases b) simp_all

lemma in_board_key_string [simp]: "in_board (key_string c)"
  by (cases c) (simp_all add: in_board_def columnKeys_def)


lemma filter_removes_one:
  "distinct (map ident xs) \<Longrightarrow> it \<in> set xs \<Longrightarrow>
     mset xs = mset (filter (\<lambda>x. ident x \<noteq> ident it) xs) + {#it#}"
proof (induction xs)
  case Nil
  then show ?case by simp
next
  case (Cons x xs)
  show ?case
  proof (cases "x = it")
    case True
    have "filter (\<lambda>y. ident y \<noteq> ident it) xs = xs"
      using Cons.prems True by (auto simp: filter_id_conv intro: rev_image_eqI)
    with True show ?thesis by simp
  next
    case False
    with Cons.prems have "it \<in> set xs" by simp
    moreover from this Cons.prems have "ident x \<noteq> ident it"
      by (auto intro: rev_image_eqI)
    ultimately show ?thesis using Cons by simp
  qed
qed

lemma move_mset:
  assumes "a \<noteq> ov" and "mset (b a) = mset xs + {#it#}" and "mset ys = mset (b ov) + {#it#}"
  shows "mset (all_items (b(a := xs, ov := ys))) = mset (all_items b)"
  using assms by (cases a; cases ov) (simp_all add: mset_all_items)

lemma unique_board_column: "unique_board b \<Longrightarrow> distinct (map ident (b k))"
  by (simp add: unique_board_iff)

lemma insert_mset: "mset (take t xs @ [x] @ drop t xs) = mset xs + {#x#}"
  by (metis append_take_drop_id mset_append add_mset_add_single mset.simps(2)
        union_mset_add_mset_right append_Cons append_Nil)

lemma dragOverIndex_nonneg: "0 \<le> dragOverIndex overId isBelow items"
  using findIndex_range [of "\<lambda>item. ident item = overId" items]
  by (auto simp: dragOverIndex_def Let_def)

lemma dragOverIndex_column:
  "dragOverIndex (key_string k) isBelow items = int (length items) + 1"
  by (simp add: dragOverIndex_def Let_def)

text \<open>The definitions a concrete instance unfolds when it is evaluated.\<close>

lemmas eval_defs =
  findContainer_def in_board_def columnKeys_def objectPrototypeKeys_def columnKey_of_def
  findIndex_def at_index_def relIndex_def slice_def arrayMove_def dragOverIndex_def
  handleDragOver_def handleDragEnd_def updateCardColumnAndPositions_begin_def
  persistColumnPositions_def ensureUniqueItems_def initialBoard_def initialState_def
  mkItem_def mkRow_def exampleBoard_def exampleState_def Let_def

lemmas eval_ops_defs =
  exampleOps_def fetchData_def realtime_def handleAdd_reply_def handleDelete_reply_def
  toItem_def colKeyOf_def removeFromAll_def orEmpty_def emptyLoad_def load_get_def load_set_def

lemmas eval_handler_defs =
  handleDelete_def handleDelete_call_def handleDelete_reply_def handleAdd_submit_def
  handleAdd_reply_def markerTimeout_def spec_update_def

section \<open>Every handler keeps the board free of duplicates\<close>

lemma dragOver_board_unique:
  assumes u: "unique_board b" and ne: "a \<noteq> ov"
    and f: "at_index (b a) (findIndex (\<lambda>item. ident item = i) (b a)) = Some moved"
  shows "unique_board (b(a := filter (\<lambda>item. ident item \<noteq> i) (b a),
                          ov := slice (b ov) 0 j @ moved # slice (b ov) j (int (length (b ov)))))"
proof -
  from f have "List.find (\<lambda>item. ident item = i) (b a) = Some moved"
    by (simp add: at_index_findIndex)
  then have m: "moved \<in> set (b a)" "ident moved = i"
    using find_ident_Some by blast+
  have one: "mset (b a) = mset (filter (\<lambda>x. ident x \<noteq> i) (b a)) + {#moved#}"
    using filter_removes_one [OF unique_board_column [OF u] m(1)] m(2) by simp
  have two: "mset (slice (b ov) 0 j @ [moved] @ slice (b ov) j (int (length (b ov))))
      = mset (b ov) + {#moved#}"
    unfolding slice_front slice_back by (rule insert_mset)
  have "mset (all_items (b(a := filter (\<lambda>item. ident item \<noteq> i) (b a),
                          ov := slice (b ov) 0 j @ [moved] @ slice (b ov) j (int (length (b ov))))))
        = mset (all_items b)"
    using ne one two by (rule move_mset)
  then show ?thesis using u by (simp add: unique_board_mset)
qed

lemma handleDragOver_unique:
  assumes "unique_board (board s)" and "handleDragOver ev s = Inr s'"
  shows "unique_board (board s')"
  using assms
  by (auto simp: handleDragOver_def Let_def dragOver_board_unique
      split: option.splits if_splits dest!: columnKey_of_Some)

lemma handleDragEnd_unique:
  assumes "unique_board (board s)" and "handleDragEnd ev s = Inr s'"
  shows "unique_board (board s')"
proof -
  have same: "unique_board ((board s)(c := ys))" if "mset ys = mset (board s c)" for c ys
  proof -
    have "mset (all_items ((board s)(c := ys))) = mset (all_items (board s))"
      using mset_all_items_upd [of "board s" c ys] that by simp
    then show ?thesis using assms(1) by (rule unique_board_mset)
  qed
  have am: "arrayMove xs i j = Inr ys \<Longrightarrow> mset ys = mset xs" for xs :: "KanbanItem list" and i j ys
    using arrayMove_mset [of i xs j]
    by (cases "relIndex i (length xs) < length xs") (auto simp: arrayMove_def Let_def)
  show ?thesis
    using assms
    by (auto simp: handleDragEnd_def Let_def unique_ensureUniqueItems same am
          updateCardColumnAndPositions_begin_def
        split: option.splits if_splits sum.splits)
qed

lemma step_unique:
  assumes "unique_board (board s)" and "step e s = Inr s'"
  shows "unique_board (board s')"
proof (cases e)
  case (Fetch reply)
  with assms show ?thesis
    by (auto simp: fetchData_def Let_def unique_ensureUniqueItems
        split: fetch_reply.splits sum.splits loaded.splits if_splits)
next
  case (Realtime p)
  with assms show ?thesis
    by (auto simp: realtime_def Let_def unique_ensureUniqueItems
        split: payload.splits option.splits if_splits)
next
  case (DragOver ev)
  with assms show ?thesis by (auto intro: handleDragOver_unique)
next
  case (DragEnd ev)
  with assms show ?thesis by (auto intro: handleDragEnd_unique)
next
  case (MoveReply closure cardId newCol oldCol reply)
  with assms show ?thesis
    by (auto simp: updateCardColumnAndPositions_reply_def split: response.splits option.splits)
next
  case (AddReply closure newColumn reply)
  with assms show ?thesis
    by (auto simp: handleAdd_reply_def Let_def unique_ensureUniqueItems
        split: response.splits option.splits)
next
  case (DeleteReply closure col i reply)
  with assms show ?thesis
    by (auto simp: handleDelete_reply_def Let_def unique_ensureUniqueItems
        split: response.splits option.splits)
next
  case (EditReply col updated reply)
  with assms show ?thesis
    by (auto simp: handleEdit_reply_def Let_def unique_ensureUniqueItems
        split: response.splits option.splits)
qed (use assms in \<open>auto simp: handleDragStart_def markerTimeout_def handleAdd_submit_def
      handleDelete_call_def handleEdit_call_def Let_def\<close>)

lemma trace_unique:
  "unique_board (board s0) \<Longrightarrow> s \<in> set (trace es s0) \<Longrightarrow> unique_board (board s)"
proof (induction es arbitrary: s0)
  case Nil
  then show ?case by simp
next
  case (Cons e es)
  show ?case
  proof (cases "step e s0")
    case (Inl err)
    with Cons.prems show ?thesis by simp
  next
    case (Inr s1)
    have "unique_board (board s1)" using Cons.prems(1) Inr by (rule step_unique)
    with Cons.IH [of s1] Cons.prems Inr show ?thesis by auto
  qed
qed

lemma unique_initialBoard: "unique_board initialBoard"
  by (simp add: unique_board_def all_items_def initialBoard_def columnKeys_def)

section \<open>Deduplication after one change\<close>

lemma ident_toItem [simp]: "ident (toItem c) = row_id c"
  by (simp add: toItem_def)

lemma filterSeen_snoc:
  "ident x \<notin> seen \<Longrightarrow> ident x \<notin> idsOf xs \<Longrightarrow>
     fst (filterSeen seen (xs @ [x])) = fst (filterSeen seen xs) @ [x]"
  by (induction xs arbitrary: seen) (auto simp: split_beta idsOf_def)

lemma idsOf_filter_ne: "i \<notin> idsOf (filter (\<lambda>item. ident item \<noteq> i) xs)"
  by (auto simp: idsOf_def)

lemma idsOf_filter: "idsOf (filter (\<lambda>y. ident y \<noteq> i) xs) = idsOf xs - {i}"
  by (auto simp: idsOf_def)

lemma idsOf_Cons: "idsOf (x # xs) = insert (ident x) (idsOf xs)"
  by (simp add: idsOf_def)

lemma idsOf_all_items: "idsOf (all_items b) = (\<Union>k. idsOf (b k))"
proof -
  have "(\<Union>k. idsOf (b k)) = idsOf (b Todo) \<union> idsOf (b Doing) \<union> idsOf (b Done) \<union> idsOf (b Temp)"
    by (auto intro: ColumnKey.exhaust) (metis ColumnKey.exhaust)
  then show ?thesis
    by (auto simp: all_items_def columnKeys_def idsOf_def)
qed

lemma ensureUniqueItems_ids: "idsOf (ensureUniqueItems b col) \<subseteq> idsOf (b col)"
  by (simp add: ensureUniqueItems_column filterSeen_ids)

lemma filter_absent: "i \<notin> idsOf xs \<Longrightarrow> filter (\<lambda>y. ident y \<noteq> i) xs = xs"
  by (auto simp: idsOf_def filter_id_conv)

lemma filter_insert_seen:
  "idsOf xs \<inter> S = {} \<Longrightarrow>
     filter (\<lambda>y. ident y \<noteq> i \<and> ident y \<notin> S) xs = filter (\<lambda>y. ident y \<noteq> i) xs"
  by (rule filter_cong) (auto simp: idsOf_def)

lemma filter_column_unique:
  assumes "unique_board b"
  shows "unique_board (b(col := filter P (b col)))"
proof -
  have d: "distinct (map ident (b Todo @ b Doing @ b Done @ b Temp))"
    using assms by (simp add: unique_board_def all_items_def columnKeys_def)
  have dist: "distinct (map ident xs) \<Longrightarrow> distinct (map ident (filter P xs))" for xs
    by (simp add: distinct_map_filter)
  show ?thesis
    using d dist
    by (cases col)
       (auto simp: unique_board_def all_items_def columnKeys_def)
qed

lemma spec_update_realtime:
  "(removeFromAll (row_id c) b)(k := removeFromAll (row_id c) b k @ [toItem c]) = spec_update c k b"
  by (rule ext) (simp add: removeFromAll_eq spec_update_def)

lemma spec_update_unique:
  assumes "unique_board b"
  shows "unique_board (spec_update c k b)"
proof -
  have d: "distinct (map ident (b Todo @ b Doing @ b Done @ b Temp))"
    using assms by (simp add: unique_board_def all_items_def columnKeys_def)
  let ?f = "filter (\<lambda>item. ident item \<noteq> row_id c)"
  have sub: "set (?f xs) \<subseteq> set xs" for xs by auto
  have dist: "distinct (map ident xs) \<Longrightarrow> distinct (map ident (?f xs))" for xs
    by (simp add: distinct_map_filter)
  have ne: "row_id c \<notin> ident ` set (?f xs)" for xs by auto
  show ?thesis
    using d sub dist ne
    by (cases k)
       (auto simp: unique_board_def all_items_def columnKeys_def spec_update_def)
qed

lemma seenBefore_spec_update: "row_id c \<notin> seenBefore (spec_update c k b) k"
  by (cases k) (auto simp: seenBefore_def idsOf_def spec_update_def)

lemma earlier_irrefl: "k \<notin> set (earlier k)"
  by (cases k) simp_all

lemma earlier_total: "col \<noteq> k \<Longrightarrow> k \<notin> set (earlier col) \<Longrightarrow> col \<in> set (earlier k)"
  by (cases k; cases col) simp_all

lemma seenBefore_mono:
  "k \<in> set (earlier col) \<Longrightarrow> seenBefore b k \<subseteq> seenBefore b col \<and> idsOf (b k) \<subseteq> seenBefore b col"
  by (cases k; cases col) (auto simp: seenBefore_def idsOf_def)

lemma seenBefore_prepend:
  "seenBefore (b(k := x # b k)) col =
     (if k \<in> set (earlier col) then insert (ident x) (seenBefore b col) else seenBefore b col)"
  by (cases k; cases col) (auto simp: seenBefore_def idsOf_def)

lemma ensureUniqueItems_prepend:
  assumes u: "unique_board b"
  shows "ensureUniqueItems (b(k := x # b k)) =
     (if ident x \<in> seenBefore b k then b
      else (\<lambda>col. filter (\<lambda>item. ident item \<noteq> ident x) (b col))
             (k := x # filter (\<lambda>item. ident item \<noteq> ident x) (b k)))"
proof (rule ext)
  fix col
  let ?i = "ident x"
  let ?nb = "b(k := x # b k)"
  have dist: "distinct (map ident (b c))" and disj: "idsOf (b c) \<inter> seenBefore b c = {}" for c
    using u by (simp_all add: unique_board_iff)
  have keep: "fst (filterSeen (seenBefore b c) (b c)) = b c" for c
    using dist disj by (rule filterSeen_same)
  have drop: "fst (filterSeen (insert ?i (seenBefore b c)) (b c))
      = filter (\<lambda>y. ident y \<noteq> ?i) (b c)" for c
    using dist [of c] disj [of c] by (simp add: filterSeen_filter filter_insert_seen)
  consider (same) "col = k" | (after) "col \<noteq> k" "k \<in> set (earlier col)"
    | (before) "col \<noteq> k" "k \<notin> set (earlier col)"
    by blast
  then show "ensureUniqueItems ?nb col =
     (if ?i \<in> seenBefore b k then b
      else (\<lambda>col. filter (\<lambda>item. ident item \<noteq> ?i) (b col))
             (k := x # filter (\<lambda>item. ident item \<noteq> ?i) (b k))) col"
  proof cases
    case same
    then show ?thesis
      by (simp add: ensureUniqueItems_column seenBefore_prepend earlier_irrefl keep drop split_beta)
  next
    case after
    have "?i \<in> seenBefore b k \<Longrightarrow> ?i \<notin> idsOf (b col)"
      using seenBefore_mono [OF after(2), of b] disj [of col] by auto
    then have "?i \<in> seenBefore b k \<Longrightarrow> filter (\<lambda>y. ident y \<noteq> ?i) (b col) = b col"
      by (simp add: filter_absent)
    with after show ?thesis
      by (simp add: ensureUniqueItems_column seenBefore_prepend drop)
  next
    case before
    then have "col \<in> set (earlier k)" by (rule earlier_total)
    then have "?i \<notin> seenBefore b k \<Longrightarrow> ?i \<notin> idsOf (b col)"
      using seenBefore_mono [of col k b] by auto
    then have "?i \<notin> seenBefore b k \<Longrightarrow> filter (\<lambda>y. ident y \<noteq> ?i) (b col) = b col"
      by (simp add: filter_absent)
    with before show ?thesis
      by (simp add: ensureUniqueItems_column seenBefore_prepend keep)
  qed
qed

section \<open>The initial partition\<close>

lemma columnKey_of_proto [simp]: "columnKey_of ''__proto__'' = None"
  by (simp add: columnKey_of_def)

lemma load_get_set: "load_get (load_set b k xs) k' = (if k' = k then Some xs else load_get b k')"
  by (auto simp: load_get_def load_set_def update_conv' split: option.splits
      dest: columnKey_of_Some)

lemma load_get_fold:
  "load_get (fold (\<lambda>colKey next. load_set next colKey []) cols b) k
     = (if k \<in> set cols then Some [] else load_get b k)"
  by (induction cols arbitrary: b) (auto simp: load_get_set)

lemma load_get_emptyLoad:
  "load_get emptyLoad k = (if columnKey_of k = None then None else Some [])"
  by (auto simp: load_get_def emptyLoad_def initialBoard_def split: option.splits)

lemma update_member:
  "p \<in> set (AList.update k v al) \<Longrightarrow> fst p = k \<or> fst p \<in> fst ` set al"
  using dom_update [of k v al] by (metis Un_iff imageI singletonD)

lemma wf_load_set: "wf_load b \<Longrightarrow> wf_load (load_set b k xs)"
  unfolding wf_load_def load_set_def
  by (auto simp: distinct_update split: option.splits dest!: update_member)

lemma wf_load_fold: "wf_load b \<Longrightarrow> wf_load (fold (\<lambda>colKey next. load_set next colKey []) cols b)"
  by (induction cols arbitrary: b) (auto simp: wf_load_set)

lemma wf_emptyLoad: "wf_load emptyLoad"
  by (simp add: wf_load_def emptyLoad_def)

lemma extra_keys:
  assumes "wf_load b"
  shows "fst ` set (lb_extra b)
     = {k. load_get b k \<noteq> None \<and> columnKey_of k = None \<and> k \<noteq> ''__proto__''}"
proof -
  have "k \<in> fst ` set (lb_extra b) \<longleftrightarrow> map_of (lb_extra b) k \<noteq> None" for k
    by (simp add: map_of_eq_None_iff)
  then show ?thesis
    using assms unfolding wf_load_def load_get_def
    by (auto split: option.splits)
qed

lemma partitionCards_invalid:
  "\<exists>c\<in>set cards. load_get b (colKeyOf c) = None \<Longrightarrow> partitionCards cards b = Inl TypeError"
proof (induction cards arbitrary: b)
  case Nil
  then show ?case by simp
next
  case (Cons a cards)
  show ?case
  proof (cases "load_get b (colKeyOf a)")
    case None
    then show ?thesis by simp
  next
    case (Some xs)
    with Cons.prems obtain c where c: "c \<in> set cards" "load_get b (colKeyOf c) = None"
      by auto
    with Some have "load_get (load_set b (colKeyOf a) (xs @ [toItem a])) (colKeyOf c) = None"
      by (auto simp: load_get_set)
    with c(1) have "partitionCards cards (load_set b (colKeyOf a) (xs @ [toItem a])) = Inl TypeError"
      by (intro Cons.IH) blast
    with Some show ?thesis by simp
  qed
qed

lemma partitionCards_valid:
  "\<forall>c\<in>set cards. load_get b (colKeyOf c) \<noteq> None \<Longrightarrow> wf_load b \<Longrightarrow>
     \<exists>next. partitionCards cards b = Inr next \<and> wf_load next
       \<and> (\<forall>k. load_get next k
              = map_option (\<lambda>xs. xs @ map toItem (filter (\<lambda>c. colKeyOf c = k) cards)) (load_get b k))"
proof (induction cards arbitrary: b)
  case Nil
  then show ?case by (simp add: option.map_ident)
next
  case (Cons c cs)
  from Cons.prems obtain xs where xs: "load_get b (colKeyOf c) = Some xs" by auto
  let ?b = "load_set b (colKeyOf c) (xs @ [toItem c])"
  have "\<forall>c'\<in>set cs. load_get ?b (colKeyOf c') \<noteq> None"
    using Cons.prems by (simp add: load_get_set)
  moreover have "wf_load ?b" using Cons.prems by (simp add: wf_load_set)
  ultimately obtain nxt where n: "partitionCards cs ?b = Inr nxt" "wf_load nxt"
    "\<And>k. load_get nxt k
        = map_option (\<lambda>xs. xs @ map toItem (filter (\<lambda>c. colKeyOf c = k) cs)) (load_get ?b k)"
    using Cons.IH [of ?b] by blast
  have "load_get nxt k
      = map_option (\<lambda>xs. xs @ map toItem (filter (\<lambda>c. colKeyOf c = k) (c # cs))) (load_get b k)" for k
    using xs by (cases "load_get b k") (auto simp: n(3) load_get_set)
  with n xs show ?case by simp
qed

lemma load_get_declared:
  "load_get (fold (\<lambda>colKey next. load_set next colKey []) cols emptyLoad) k
     = (if k \<in> set cols \<or> columnKey_of k \<noteq> None then Some [] else None)"
  by (simp add: load_get_fold load_get_emptyLoad)

lemma load_known:
  assumes "\<forall>c\<in>set cards. columnKey_of (colKeyOf c) \<noteq> None \<or> colKeyOf c \<in> set cols"
  shows "\<exists>next. partitionCards cards (fold (\<lambda>colKey next. load_set next colKey []) cols emptyLoad)
               = Inr next
           \<and> wf_load next
           \<and> (\<forall>k. load_get next k
                  = (if k \<in> set cols \<or> columnKey_of k \<noteq> None
                     then Some (map toItem (filter (\<lambda>c. colKeyOf c = k) cards)) else None))"
proof -
  let ?next0 = "fold (\<lambda>colKey next. load_set next colKey []) cols emptyLoad"
  have "\<forall>c\<in>set cards. load_get ?next0 (colKeyOf c) \<noteq> None"
    using assms by (auto simp: load_get_declared)
  moreover have "wf_load ?next0"
    by (intro wf_load_fold wf_emptyLoad)
  ultimately obtain nxt where n: "partitionCards cards ?next0 = Inr nxt" "wf_load nxt"
    "\<And>k. load_get nxt k
        = map_option (\<lambda>xs. xs @ map toItem (filter (\<lambda>c. colKeyOf c = k) cards)) (load_get ?next0 k)"
    using partitionCards_valid [of cards ?next0] by blast
  have "load_get nxt k = (if k \<in> set cols \<or> columnKey_of k \<noteq> None
          then Some (map toItem (filter (\<lambda>c. colKeyOf c = k) cards)) else None)" for k
    by (simp add: n(3) load_get_declared)
  with n(1,2) show ?thesis by blast
qed

lemma load_unknown:
  assumes "\<exists>c\<in>set cards. columnKey_of (colKeyOf c) = None \<and> colKeyOf c \<notin> set cols"
  shows "partitionCards cards (fold (\<lambda>colKey next. load_set next colKey []) cols emptyLoad)
           = Inl TypeError"
  using assms by (intro partitionCards_invalid) (auto simp: load_get_declared)

lemma lanes_of_load:
  assumes "\<forall>k. load_get b k = (if k \<in> set cols \<or> columnKey_of k \<noteq> None
                                then Some (map toItem (filter (\<lambda>c. colKeyOf c = k) cards)) else None)"
  shows "lb_lanes b = spec_partition cards"
proof (rule ext)
  fix c
  have "load_get b (key_string c) = Some (lb_lanes b c)"
    by (simp add: load_get_def)
  with assms have "lb_lanes b c = map toItem (filter (\<lambda>x. colKeyOf x = key_string c) cards)"
    by simp
  moreover have "(colKeyOf x = key_string c) = (columnKey_of (colKeyOf x) = Some c)" for x
    by (auto dest: columnKey_of_Some)
  ultimately show "lb_lanes b c = spec_partition cards c"
    by (simp add: spec_partition_def)
qed

lemma extra_of_load:
  assumes "wf_load b"
    and "\<forall>k. load_get b k = (if k \<in> set cols \<or> columnKey_of k \<noteq> None
                                then Some (map toItem (filter (\<lambda>c. colKeyOf c = k) cards)) else None)"
  shows "fst ` set (lb_extra b) = {k \<in> set cols. columnKey_of k = None \<and> k \<noteq> ''__proto__''}"
  using assms(2) by (auto simp: extra_keys [OF assms(1)])

text \<open>The entries of the loaded board, and their deduplication lane by lane.\<close>

lemma set_columnKeys [simp]: "set columnKeys = UNIV"
  by (auto simp: columnKeys_def intro: ColumnKey.exhaust)

lemma set_entries:
  "set (entries b) = set (lb_extra b) \<union> (\<lambda>c. (key_string c, lb_lanes b c)) ` set columnKeys"
  by (auto simp: entries_def)

lemma entries_get:
  assumes "wf_load b" and "(k, ys) \<in> set (entries b)"
  shows "load_get b k = Some ys"
proof -
  from assms(2) consider "(k, ys) \<in> set (lb_extra b)" | c where "k = key_string c" "ys = lb_lanes b c"
    by (auto simp: set_entries)
  then show ?thesis
  proof cases
    case 1
    then have "k \<in> fst ` set (lb_extra b)" by force
    with assms(1) have "columnKey_of k = None" "k \<noteq> ''__proto__''"
      by (auto simp: wf_load_def)
    moreover have "map_of (lb_extra b) k = Some ys"
      using assms(1) 1 by (simp add: wf_load_def)
    ultimately show ?thesis by (simp add: load_get_def)
  next
    case 2
    then show ?thesis by (simp add: load_get_def)
  qed
qed

lemma get_entries:
  assumes "load_get b k = Some ys" and "k \<noteq> ''__proto__''"
  shows "(k, ys) \<in> set (entries b)"
proof (cases "columnKey_of k")
  case None
  with assms have "map_of (lb_extra b) k = Some ys" by (simp add: load_get_def)
  then have "(k, ys) \<in> set (lb_extra b)" by (rule map_of_SomeD)
  then show ?thesis by (simp add: set_entries)
next
  case (Some c)
  with assms have "ys = lb_lanes b c" by (simp add: load_get_def)
  moreover from Some have "k = key_string c" by (rule columnKey_of_Some)
  ultimately show ?thesis by (simp add: set_entries)
qed

lemma idsOf_append: "idsOf (xs @ ys) = idsOf xs \<union> idsOf ys"
  by (auto simp: idsOf_def)

lemma idsOf_Nil: "idsOf [] = {}"
  by (simp add: idsOf_def)

lemma filterLanes_keys: "map fst (fst (filterLanes seen es)) = map fst es"
  by (induction es arbitrary: seen) (auto simp: split_beta)

lemma filterSeen_subset: "set (fst (filterSeen seen xs)) \<subseteq> set xs"
  by (induction xs arbitrary: seen) (auto simp: split_beta)

lemma filterLanes_sub:
  "(k, xs) \<in> set (fst (filterLanes seen es)) \<Longrightarrow> \<exists>ys. (k, ys) \<in> set es \<and> set xs \<subseteq> set ys"
proof (induction es arbitrary: seen)
  case Nil
  then show ?case by simp
next
  case (Cons e es)
  obtain k0 ys0 where e: "e = (k0, ys0)" by (cases e)
  from Cons.prems consider "(k, xs) = (k0, fst (filterSeen seen ys0))"
    | "(k, xs) \<in> set (fst (filterLanes (snd (filterSeen seen ys0)) es))"
    by (auto simp: e split_beta)
  then show ?case
  proof cases
    case 1
    then show ?thesis using filterSeen_subset [of seen ys0] by (auto simp: e)
  next
    case 2
    from Cons.IH [OF 2] show ?thesis by auto
  qed
qed

lemma filterLanes_snd:
  "snd (filterLanes seen es) = seen \<union> idsOf (concat (map snd es))"
proof (induction es arbitrary: seen)
  case Nil
  show ?case by (simp add: idsOf_Nil)
next
  case (Cons e es)
  obtain k0 ys0 where e: "e = (k0, ys0)" by (cases e)
  show ?case
    by (simp add: e split_beta Cons.IH filterSeen_snd idsOf_append Un_assoc)
qed

lemma filterLanes_ids:
  "idsOf (concat (map snd (fst (filterLanes seen es)))) = idsOf (concat (map snd es)) - seen"
proof (induction es arbitrary: seen)
  case Nil
  show ?case by (simp add: idsOf_Nil)
next
  case (Cons e es)
  obtain k0 ys0 where e: "e = (k0, ys0)" by (cases e)
  show ?case
    using Cons.IH [of "snd (filterSeen seen ys0)"]
    by (auto simp: e split_beta idsOf_append filterSeen_ids filterSeen_snd)
qed

lemma filterLanes_distinct:
  "distinct (map ident (concat (map snd (fst (filterLanes seen es)))))"
proof (induction es arbitrary: seen)
  case Nil
  show ?case by simp
next
  case (Cons e es)
  obtain k0 ys0 where e: "e = (k0, ys0)" by (cases e)
  let ?kept = "fst (filterSeen seen ys0)"
  let ?seen = "snd (filterSeen seen ys0)"
  have "idsOf ?kept \<inter> idsOf (concat (map snd (fst (filterLanes ?seen es)))) = {}"
    by (auto simp: filterLanes_ids filterSeen_snd filterSeen_ids)
  then have "ident ` set ?kept \<inter> ident ` set (concat (map snd (fst (filterLanes ?seen es)))) = {}"
    by (simp add: idsOf_def)
  with Cons.IH [of ?seen] filterSeen_distinct [of seen ys0]
  show ?case by (simp add: e split_beta)
qed

lemma in_lane_ids:
  "(k, ys) \<in> set es \<Longrightarrow> x \<in> set ys \<Longrightarrow> ident x \<in> idsOf (concat (map snd es))"
  by (induction es) (auto simp: idsOf_def)

text \<open>
  On a board of the four lanes the loop over the entries is \<open>ensureUniqueItems\<close>, which
  \<open>fetchData\<close> uses in that case.
\<close>

lemma entries_four_lanes:
  "lb_extra b = [] \<Longrightarrow>
     fst (filterLanes {} (entries b))
       = map (\<lambda>c. (key_string c, ensureUniqueItems (lb_lanes b) c)) columnKeys"
  by (simp add: entries_def columnKeys_def ensureUniqueItems_def initialBoard_def split_beta)

lemmas eval_load_defs =
  fetchData_def orEmpty_def emptyLoad_def load_get_def load_set_def entries_def arrayIndex_def
  columnKey_of_def colKeyOf_def toItem_def mkRow_def mkItem_def initialBoard_def
  ensureUniqueItems_def columnKeys_def

section \<open>Container resolution: facts\<close>

text \<open>
  A column key resolves to itself, whatever cards the board holds; an id that is no
  property name of the board resolves to the first column holding a card with that id,
  and to nothing when no column does.
\<close>

lemma findContainer_column_key: "findContainer b (key_string k) = Some (key_string k)"
  by (simp add: findContainer_def)

lemma find_column_None:
  "List.find (\<lambda>key. List.find (\<lambda>item. ident item = i) (b key) \<noteq> None) columnKeys = None
     \<longleftrightarrow> i \<notin> idsOf (all_items b)"
proof -
  have "(\<forall>k. i \<notin> idsOf (b k)) \<longleftrightarrow> (\<forall>k\<in>set columnKeys. i \<notin> idsOf (b k))"
    by (auto simp: columnKeys_def) (metis ColumnKey.exhaust)
  moreover have "List.find (\<lambda>key. List.find (\<lambda>item. ident item = i) (b key) \<noteq> None) columnKeys = None
      \<longleftrightarrow> (\<forall>k\<in>set columnKeys. i \<notin> idsOf (b k))"
    by (auto simp: find_None_iff idsOf_def)
  ultimately show ?thesis
    by (simp only: idsOf_all_items) blast
qed

lemma findContainer_unknown:
  "\<not> in_board i \<Longrightarrow> i \<notin> idsOf (all_items b) \<Longrightarrow> findContainer b i = None"
  by (simp only: findContainer_def find_column_None if_False option.map_disc_iff simp_thms)

lemma findContainer_card:
  assumes "\<not> in_board i" and "i \<in> idsOf (all_items b)"
  shows "\<exists>k. findContainer b i = Some (key_string k) \<and> i \<in> idsOf (b k)"
proof -
  from assms(2) obtain k where
    "List.find (\<lambda>key. List.find (\<lambda>item. ident item = i) (b key) \<noteq> None) columnKeys = Some k"
    using find_column_None [of i b] by auto
  moreover from this have "List.find (\<lambda>item. ident item = i) (b k) \<noteq> None"
    by (auto simp: find_Some_iff)
  ultimately show ?thesis
    using assms(1) by (auto simp: findContainer_def find_ident_None)
qed

section \<open>The claims\<close>

subsection \<open>C1: the no-duplication invariant\<close>

text \<open>
  Claim C1. For every sequence of board operations (add, delete, edit, reorder within a
  column, move across columns, drag-over preview, ingestion of insert, update and delete
  events, with the remote responses arriving at any time) starting from the empty board,
  every card identity appears in at most one column's sequence, and there at most once,
  in every state the sequence goes through. \<open>trace ops initialState\<close> lists those
  states, and \<open>unique_board\<close> says that the ids of the four columns, put end to end,
  are pairwise different.
\<close>

theorem no_duplication_invariant:
  "s \<in> set (trace ops initialState) \<Longrightarrow> unique_board (board s)"
  by (rule trace_unique [of initialState]) (simp_all add: initialState_def unique_initialBoard)

theorem no_duplication_invariant_witness:
  "unique_board (board (last (trace exampleOps initialState)))
   \<and> map (\<lambda>k. map ident (board (last (trace exampleOps initialState)) k)) columnKeys
       = [[''3''], [], [''1''], []]
   \<and> length (trace exampleOps initialState) = 9"
proof -
  have "last (trace exampleOps initialState) \<in> set (trace exampleOps initialState)"
    by (rule last_in_set) (simp add: exampleOps_def)
  then have "unique_board (board (last (trace exampleOps initialState)))"
    by (rule no_duplication_invariant [of "last (trace exampleOps initialState)" exampleOps])
  moreover have "map (\<lambda>k. map ident (board (last (trace exampleOps initialState)) k)) columnKeys
       = [[''3''], [], [''1''], []]
     \<and> length (trace exampleOps initialState) = 9"
    by (simp add: eval_defs eval_ops_defs)
  ultimately show ?thesis by simp
qed

subsection \<open>C2: ingestion of a remote update\<close>

text \<open>
  Claim C2. An update event for a card whose id is in the pending-write marker set
  leaves the state unchanged. For an id not in the marker set, whose declared column is
  one of the four lanes (a missing key means "todo"), the new board is the deduplicated
  \<open>spec_update\<close>: the id removed from every column and the updated record appended
  at the end of its declared column. The record is the last element of that column and
  its id occurs nowhere else; on a board without duplicates the deduplication changes
  nothing. The marker is set when a move starts its remote write, and an update for the
  card is ignored from then on; after the marker's timeout the id is no longer marked.
\<close>

theorem update_event_ingestion:
  "(row_id c \<in> localUpdateRef s \<longrightarrow> realtime (UPDATE (Some c)) s = Inr s)
   \<and> (row_id c \<notin> localUpdateRef s \<longrightarrow> columnKey_of (colKeyOf c) = Some k \<longrightarrow>
        realtime (UPDATE (Some c)) s
          = Inr (s\<lparr>board := ensureUniqueItems (spec_update c k (board s))\<rparr>)
        \<and> (\<exists>front. ensureUniqueItems (spec_update c k (board s)) k = front @ [toItem c]
                    \<and> row_id c \<notin> idsOf front)
        \<and> (\<forall>col. col \<noteq> k \<longrightarrow> row_id c \<notin> idsOf (ensureUniqueItems (spec_update c k (board s)) col))
        \<and> (unique_board (board s) \<longrightarrow>
              ensureUniqueItems (spec_update c k (board s)) = spec_update c k (board s)))
   \<and> realtime (UPDATE (Some c)) (updateCardColumnAndPositions_begin (row_id c) newCol oldCol s)
       = Inr (updateCardColumnAndPositions_begin (row_id c) newCol oldCol s)
   \<and> row_id c \<notin> localUpdateRef (markerTimeout (row_id c) s)"
proof (intro conjI impI allI)
  show "realtime (UPDATE (Some c)) s = Inr s" if "row_id c \<in> localUpdateRef s"
    using that by (simp add: realtime_def Let_def)
  show "realtime (UPDATE (Some c)) (updateCardColumnAndPositions_begin (row_id c) newCol oldCol s)
       = Inr (updateCardColumnAndPositions_begin (row_id c) newCol oldCol s)"
    by (simp add: realtime_def updateCardColumnAndPositions_begin_def Let_def)
  show "row_id c \<notin> localUpdateRef (markerTimeout (row_id c) s)"
    by (simp add: markerTimeout_def)
next
  assume "row_id c \<notin> localUpdateRef s" and "columnKey_of (colKeyOf c) = Some k"
  then show "realtime (UPDATE (Some c)) s
          = Inr (s\<lparr>board := ensureUniqueItems (spec_update c k (board s))\<rparr>)"
    by (simp add: realtime_def Let_def spec_update_realtime)
next
  let ?b = "spec_update c k (board s)"
  let ?xs = "filter (\<lambda>item. ident item \<noteq> row_id c) (board s k)"
  have col: "?b k = ?xs @ [toItem c]" by (simp add: spec_update_def)
  have "ensureUniqueItems ?b k = fst (filterSeen (seenBefore ?b k) ?xs) @ [toItem c]"
    unfolding ensureUniqueItems_column col
    by (rule filterSeen_snoc) (simp_all add: seenBefore_spec_update idsOf_filter_ne)
  moreover have "row_id c \<notin> idsOf (fst (filterSeen (seenBefore ?b k) ?xs))"
    by (simp add: filterSeen_ids idsOf_filter_ne)
  ultimately show "\<exists>front. ensureUniqueItems ?b k = front @ [toItem c] \<and> row_id c \<notin> idsOf front"
    by blast
next
  fix col assume "col \<noteq> k"
  then have "row_id c \<notin> idsOf (spec_update c k (board s) col)"
    by (simp add: spec_update_def idsOf_filter_ne)
  then show "row_id c \<notin> idsOf (ensureUniqueItems (spec_update c k (board s)) col)"
    using ensureUniqueItems_ids by blast
next
  assume "unique_board (board s)"
  then show "ensureUniqueItems (spec_update c k (board s)) = spec_update c k (board s)"
    by (intro ensureUniqueItems_unique spec_update_unique)
qed

theorem update_event_ingestion_witness:
  "realtime (UPDATE (Some (mkRow ''1'' ''Write the spec'' (Some ''done''))))
       (exampleState\<lparr>localUpdateRef := {''1''}\<rparr>)
     = Inr (exampleState\<lparr>localUpdateRef := {''1''}\<rparr>)
   \<and> (\<exists>s'. realtime (UPDATE (Some (mkRow ''1'' ''Write the spec'' (Some ''done'')))) exampleState = Inr s'
          \<and> board s' = spec_update (mkRow ''1'' ''Write the spec'' (Some ''done'')) Done exampleBoard
          \<and> board s' Todo = [mkItem ''3'' ''Review'']
          \<and> board s' Doing = [mkItem ''2'' ''Build'']
          \<and> board s' Done = [mkItem ''1'' ''Write the spec'']
          \<and> board s' Temp = [])"
proof -
  let ?c = "mkRow ''1'' ''Write the spec'' (Some ''done'')"
  let ?m = "exampleState\<lparr>localUpdateRef := {''1''}\<rparr>"
  have "row_id ?c \<in> localUpdateRef ?m"
    by (simp add: mkRow_def)
  with update_event_ingestion [of ?c ?m Done Doing Todo]
  have marked: "realtime (UPDATE (Some ?c)) ?m = Inr ?m" by blast
  have "row_id ?c \<notin> localUpdateRef exampleState"
    and "columnKey_of (colKeyOf ?c) = Some Done"
    and "unique_board (board exampleState)"
    by (simp_all add: eval_defs eval_ops_defs unique_board_def all_items_def)
  with update_event_ingestion [of ?c exampleState Done Doing Todo]
  have "realtime (UPDATE (Some ?c)) exampleState
          = Inr (exampleState\<lparr>board := spec_update ?c Done (board exampleState)\<rparr>)"
    by simp
  then have "\<exists>s'. realtime (UPDATE (Some ?c)) exampleState = Inr s'
          \<and> board s' = spec_update ?c Done exampleBoard
          \<and> board s' Todo = [mkItem ''3'' ''Review'']
          \<and> board s' Doing = [mkItem ''2'' ''Build'']
          \<and> board s' Done = [mkItem ''1'' ''Write the spec'']
          \<and> board s' Temp = []"
    by (simp add: eval_defs eval_ops_defs spec_update_def)
  with marked show ?thesis by (rule conjI)
qed

subsection \<open>C3: deleting a card\<close>

text \<open>
  Claim C3 says that delete removes the card from local state before the remote delete
  completes and whatever its outcome. The handler awaits the remote delete first: with
  the call issued and not answered the card is still on the board, and when the call
  fails the card stays and the error message is set.
\<close>

theorem delete_waits_for_remote_counterexample:
  "board (handleDelete_call Todo ''1'' exampleState) Todo
     = [mkItem ''1'' ''Write spec'', mkItem ''3'' ''Review'']
   \<and> calls (handleDelete_call Todo ''1'' exampleState) = [DeleteCard ''1'']
   \<and> board (handleDelete Todo ''1'' (Response (Some ''network error'') None) exampleState) Todo
     = [mkItem ''1'' ''Write spec'', mkItem ''3'' ''Review'']
   \<and> error (handleDelete Todo ''1'' (Response (Some ''network error'') None) exampleState)
     = Some ''Failed to delete task: network error''"
  by (simp add: eval_defs eval_handler_defs)

text \<open>
  Claim C3, amended. Delete issues the remote delete and leaves the board as it is until
  the response arrives. On success it removes the card from its column (and
  deduplicates, which changes nothing else on a board without duplicates) and then runs
  the position pass for the column on the board of its closure. On a failure of either
  kind it sets the error message and leaves the board unchanged.
\<close>

theorem delete_after_confirmation:
  "board (handleDelete_call col i s) = board s
   \<and> calls (handleDelete_call col i s) = calls s @ [DeleteCard i]
   \<and> board (handleDelete_reply closure col i (Response None d) s)
       = ensureUniqueItems ((board s)(col := filter (\<lambda>x. ident x \<noteq> i) (board s col)))
   \<and> i \<notin> idsOf (board (handleDelete_reply closure col i (Response None d) s) col)
   \<and> calls (handleDelete_reply closure col i (Response None d) s)
       = calls s @ persistColumnPositions closure col
   \<and> (unique_board (board s) \<longrightarrow>
        board (handleDelete_reply closure col i (Response None d) s)
          = (board s)(col := filter (\<lambda>x. ident x \<noteq> i) (board s col)))
   \<and> board (handleDelete_reply closure col i (Response (Some msg) d) s) = board s
   \<and> error (handleDelete_reply closure col i (Response (Some msg) d) s)
       = Some (''Failed to delete task: '' @ msg)
   \<and> board (handleDelete_reply closure col i Rejected s) = board s
   \<and> error (handleDelete_reply closure col i Rejected s)
       = Some ''Failed to delete task. Please check your connection.''"
proof -
  let ?nb = "(board s)(col := filter (\<lambda>x. ident x \<noteq> i) (board s col))"
  have "idsOf (ensureUniqueItems ?nb col) \<subseteq> idsOf (?nb col)"
    by (rule ensureUniqueItems_ids)
  then have gone: "i \<notin> idsOf (ensureUniqueItems ?nb col)"
    using idsOf_filter_ne [of i "board s col"] by auto
  have same: "unique_board (board s) \<Longrightarrow> ensureUniqueItems ?nb = ?nb"
    by (intro ensureUniqueItems_unique filter_column_unique)
  show ?thesis
    using gone same
    by (simp add: handleDelete_call_def handleDelete_reply_def Let_def)
qed

theorem delete_after_confirmation_witness:
  "board (handleDelete_call Todo ''1'' exampleState) = board exampleState
   \<and> board (handleDelete Todo ''1'' (Response None None) exampleState)
       = exampleBoard(Todo := [mkItem ''3'' ''Review''])
   \<and> calls (handleDelete Todo ''1'' (Response None None) exampleState)
       = [DeleteCard ''1'', UpdatePosition ''1'' 0, UpdatePosition ''3'' 1]"
proof -
  let ?s = "handleDelete_call Todo ''1'' exampleState"
  have b: "board ?s = exampleBoard" and u: "unique_board (board ?s)"
    by (simp_all add: eval_defs eval_handler_defs unique_board_def all_items_def)
  from delete_after_confirmation [of Todo "''1''" exampleState]
  have c0: "board ?s = board exampleState" by simp
  note t = delete_after_confirmation [of Todo "''1''" ?s exampleBoard None "[]"]
  from t u
  have "board (handleDelete_reply exampleBoard Todo ''1'' (Response None None) ?s)
          = (board ?s)(Todo := filter (\<lambda>x. ident x \<noteq> ''1'') (board ?s Todo))"
    by (elim conjE impE) assumption+
  moreover from t
  have "calls (handleDelete_reply exampleBoard Todo ''1'' (Response None None) ?s)
          = calls ?s @ persistColumnPositions exampleBoard Todo"
    by (elim conjE) assumption
  ultimately have "board (handleDelete Todo ''1'' (Response None None) exampleState)
          = exampleBoard(Todo := [mkItem ''3'' ''Review''])"
    and "calls (handleDelete Todo ''1'' (Response None None) exampleState)
          = [DeleteCard ''1'', UpdatePosition ''1'' 0, UpdatePosition ''3'' 1]"
    by (simp_all add: handleDelete_def handleDelete_call_def eval_defs)
  with c0 show ?thesis by simp
qed

subsection \<open>C4: ingestion of a remote insert\<close>

text \<open>
  Claim C4 says that an insert event whose id is already on the board leaves the board
  unchanged. The handler prepends the record to its declared column and deduplicates,
  keeping the first occurrence in the order todo, doing, done, temp: a card held by the
  second lane, inserted again with the first lane declared, moves to the front of the
  first lane.
\<close>

theorem insert_existing_identity_counterexample:
  "''2'' \<in> idsOf (all_items (board exampleState))
   \<and> (\<exists>s'. realtime (INSERT (Some (mkRow ''2'' ''Build'' (Some ''todo'')))) exampleState = Inr s'
          \<and> board s' Todo = [mkItem ''2'' ''Build'', mkItem ''1'' ''Write spec'', mkItem ''3'' ''Review'']
          \<and> board s' Doing = []
          \<and> board s' Doing \<noteq> board exampleState Doing)"
  by (simp add: eval_defs eval_ops_defs all_items_def idsOf_def)

text \<open>
  Claim C4, amended. On a board without duplicates, an insert event whose declared
  column is one of the four lanes leaves a board without duplicates whose ids are the
  old ones and the event's; for an id already on the board the set of ids is unchanged.
  When a column before the declared one holds the id, the board is unchanged. Otherwise
  the event's record stands at the front of the declared column and the id is removed
  everywhere else. When the id is not on the board, the record is prepended to its
  declared column and nothing else changes.
\<close>

theorem insert_event_ingestion:
  assumes "columnKey_of (colKeyOf c) = Some k" and "unique_board (board s)"
  shows "\<exists>s'. realtime (INSERT (Some c)) s = Inr s'
           \<and> unique_board (board s')
           \<and> idsOf (all_items (board s')) = insert (row_id c) (idsOf (all_items (board s)))
           \<and> (row_id c \<in> idsOf (all_items (board s)) \<longrightarrow>
                idsOf (all_items (board s')) = idsOf (all_items (board s)))
           \<and> (row_id c \<in> seenBefore (board s) k \<longrightarrow> board s' = board s)
           \<and> (row_id c \<notin> seenBefore (board s) k \<longrightarrow>
                board s' = (\<lambda>col. filter (\<lambda>item. ident item \<noteq> row_id c) (board s col))
                             (k := toItem c # filter (\<lambda>item. ident item \<noteq> row_id c) (board s k)))
           \<and> (row_id c \<notin> idsOf (all_items (board s)) \<longrightarrow>
                board s' = (board s)(k := toItem c # board s k))"
proof -
  let ?b = "board s"
  let ?i = "row_id c"
  let ?nb = "?b(k := toItem c # ?b k)"
  have res: "realtime (INSERT (Some c)) s = Inr (s\<lparr>board := ensureUniqueItems ?nb\<rparr>)"
    using assms(1) by (simp add: realtime_def Let_def)
  have form: "ensureUniqueItems ?nb =
     (if ?i \<in> seenBefore ?b k then ?b
      else (\<lambda>col. filter (\<lambda>item. ident item \<noteq> ?i) (?b col))
             (k := toItem c # filter (\<lambda>item. ident item \<noteq> ?i) (?b k)))"
    using ensureUniqueItems_prepend [OF assms(2), of k "toItem c"] by simp
  have ids: "idsOf (all_items (ensureUniqueItems ?nb)) = insert ?i (idsOf (all_items ?b))"
  proof (cases "?i \<in> seenBefore ?b k")
    case True
    then have "?i \<in> idsOf (all_items ?b)"
      by (cases k) (auto simp: seenBefore_def all_items_def columnKeys_def idsOf_def)
    with True form show ?thesis by auto
  next
    case False
    have "(\<Union>col. idsOf (((\<lambda>col. filter (\<lambda>item. ident item \<noteq> ?i) (?b col))
             (k := toItem c # filter (\<lambda>item. ident item \<noteq> ?i) (?b k))) col))
          = insert ?i (\<Union>col. idsOf (?b col))"
      by (auto simp: idsOf_filter idsOf_Cons split: if_splits) metis
    with False form show ?thesis by (simp add: idsOf_all_items)
  qed
  have absent: "ensureUniqueItems ?nb = ?nb" if "?i \<notin> idsOf (all_items ?b)"
  proof -
    have "?i \<notin> idsOf (?b col)" for col
      using that by (auto simp: idsOf_all_items)
    then have "filter (\<lambda>item. ident item \<noteq> ?i) (?b col) = ?b col" for col
      by (rule filter_absent)
    moreover have "?i \<notin> seenBefore ?b k"
      using that by (cases k) (auto simp: seenBefore_def all_items_def columnKeys_def idsOf_def)
    ultimately show ?thesis using form by (simp add: fun_upd_def)
  qed
  have ids_same: "?i \<in> idsOf (all_items ?b) \<Longrightarrow>
      idsOf (all_items (ensureUniqueItems ?nb)) = idsOf (all_items ?b)"
    using ids by (simp add: insert_absorb)
  have u: "unique_board (ensureUniqueItems ?nb)"
    by (rule unique_ensureUniqueItems)
  have there: "?i \<in> seenBefore ?b k \<Longrightarrow> ensureUniqueItems ?nb = ?b"
    and notbefore: "?i \<notin> seenBefore ?b k \<Longrightarrow> ensureUniqueItems ?nb =
        (\<lambda>col. filter (\<lambda>item. ident item \<noteq> ?i) (?b col))
             (k := toItem c # filter (\<lambda>item. ident item \<noteq> ?i) (?b k))"
    using form by simp_all
  have sel: "board (s\<lparr>board := X\<rparr>) = X" for X by simp
  show ?thesis
    unfolding res
    by (intro exI [of _ "s\<lparr>board := ensureUniqueItems ?nb\<rparr>"] conjI impI;
        (unfold sel)?; (rule refl u ids | erule there notbefore absent ids_same))
qed

theorem insert_event_ingestion_witness:
  "(\<exists>s'. realtime (INSERT (Some (mkRow ''1'' ''Write spec'' (Some ''doing'')))) exampleState = Inr s'
          \<and> board s' = board exampleState)
   \<and> (\<exists>s'. realtime (INSERT (Some (mkRow ''2'' ''Build'' (Some ''todo'')))) exampleState = Inr s'
          \<and> board s' = (\<lambda>col. filter (\<lambda>item. ident item \<noteq> ''2'') (exampleBoard col))
                          (Todo := mkItem ''2'' ''Build'' # filter (\<lambda>item. ident item \<noteq> ''2'') (exampleBoard Todo)))
   \<and> (\<exists>s'. realtime (INSERT (Some (mkRow ''4'' ''Ship'' None))) exampleState = Inr s'
          \<and> board s' = exampleBoard(Todo := mkItem ''4'' ''Ship'' # exampleBoard Todo))"
proof -
  have u: "unique_board (board exampleState)"
    by (simp add: eval_defs unique_board_def all_items_def)
  have b: "board exampleState = exampleBoard"
    by (simp add: exampleState_def)
  let ?c1 = "mkRow ''1'' ''Write spec'' (Some ''doing'')"
  have "columnKey_of (colKeyOf ?c1) = Some Doing"
    and "row_id ?c1 \<in> seenBefore (board exampleState) Doing"
    by (simp_all add: eval_defs eval_ops_defs seenBefore_def idsOf_def)
  with insert_event_ingestion [of ?c1 Doing exampleState] u
  have one: "\<exists>s'. realtime (INSERT (Some ?c1)) exampleState = Inr s' \<and> board s' = board exampleState"
    by blast
  let ?c2 = "mkRow ''2'' ''Build'' (Some ''todo'')"
  have "columnKey_of (colKeyOf ?c2) = Some Todo"
    and "row_id ?c2 \<notin> seenBefore (board exampleState) Todo"
    and "toItem ?c2 = mkItem ''2'' ''Build''" and "row_id ?c2 = ''2''"
    by (simp_all add: eval_defs eval_ops_defs seenBefore_def idsOf_def)
  with insert_event_ingestion [of ?c2 Todo exampleState] u b
  have two: "\<exists>s'. realtime (INSERT (Some ?c2)) exampleState = Inr s'
          \<and> board s' = (\<lambda>col. filter (\<lambda>item. ident item \<noteq> ''2'') (exampleBoard col))
                          (Todo := mkItem ''2'' ''Build'' # filter (\<lambda>item. ident item \<noteq> ''2'') (exampleBoard Todo))"
    by auto
  let ?c3 = "mkRow ''4'' ''Ship'' None"
  have "columnKey_of (colKeyOf ?c3) = Some Todo"
    and "row_id ?c3 \<notin> idsOf (all_items (board exampleState))"
    and "toItem ?c3 = mkItem ''4'' ''Ship''"
    by (simp_all add: eval_defs eval_ops_defs all_items_def idsOf_def)
  with insert_event_ingestion [of ?c3 Todo exampleState] u b
  have three: "\<exists>s'. realtime (INSERT (Some ?c3)) exampleState = Inr s'
          \<and> board s' = exampleBoard(Todo := mkItem ''4'' ''Ship'' # exampleBoard Todo)"
    by auto
  from one two three show ?thesis by (intro conjI)
qed

subsection \<open>C5: moving a card across columns at drag-end\<close>



subsection \<open>C6: reordering within a column\<close>



subsection \<open>C7: the initial load\<close>

text \<open>
  Claim C7 says that the initial load puts a card whose column key is not one of the
  four valid keys into "todo". The operator \<^verbatim>\<open>??\<close> replaces only a missing key. For the
  key "archive": when no row of \<^verbatim>\<open>kanban_columns\<close> declares it, \<^verbatim>\<open>next[colKey]\<close> is
  undefined, spreading it throws, and the \<^verbatim>\<open>catch\<close> block reports the load error; when a
  row declares it, the card is loaded into a fifth lane of that key. The card reaches
  "todo" in neither case.
\<close>

theorem initial_load_invalid_key_counterexample:
  "column_key (mkRow ''1'' ''Write spec'' (Some ''archive'')) = Some ''archive''
   \<and> columnKey_of ''archive'' = None
   \<and> fetchData (Fetched (Some [''todo'', ''doing'', ''done'', ''temp''])
         (Some [mkRow ''1'' ''Write spec'' (Some ''archive'')])) initialState
       = LoadState (initialState\<lparr>error := Some ''Failed to load board data. Please refresh the page.'',
                                 loading := False\<rparr>)
   \<and> board (initialState\<lparr>error := Some ''Failed to load board data. Please refresh the page.'',
                           loading := False\<rparr>) Todo = []
   \<and> fetchData (Fetched (Some [''todo'', ''doing'', ''done'', ''temp'', ''archive''])
         (Some [mkRow ''1'' ''Write spec'' (Some ''archive'')])) initialState
       = LoadLanes [(''todo'', []), (''doing'', []), (''done'', []), (''temp'', []),
                    (''archive'', [mkItem ''1'' ''Write spec''])]"
  by (simp add: eval_load_defs initialState_def)

text \<open>
  Claim C7, amended. The initial load puts every fetched card into the lane its column
  key names, a missing key meaning "todo", deduplicates by identity, and sets the result
  as the board, with no error, provided every card's key is missing, valid, or declared
  by a row of \<^verbatim>\<open>kanban_columns\<close>. When the rows declare no lane beside the four (only valid
  keys, or "__proto__", which makes no lane), that board is the deduplicated
  \<open>spec_partition\<close> of the four lanes. When they declare further lanes, the board has
  the four lanes and the declared ones, each lane holds only cards of its key, every
  card whose key is not "__proto__" is in a lane, and no id is there twice. When some
  card's key is neither valid nor declared, the load sets the load error and leaves the
  board as it was. A missing list of rows counts as the empty list.
\<close>

theorem initial_load_partitions:
  "((\<forall>c\<in>set cards. columnKey_of (colKeyOf c) \<noteq> None \<or> colKeyOf c \<in> set cols)
        \<and> (\<forall>k\<in>set cols. columnKey_of k \<noteq> None \<or> k = ''__proto__'') \<longrightarrow>
      fetchData (Fetched (Some cols) (Some cards)) s
        = LoadState (s\<lparr>error := None, board := ensureUniqueItems (spec_partition cards),
                       loading := False\<rparr>))
   \<and> ((\<exists>c\<in>set cards. columnKey_of (colKeyOf c) = None \<and> colKeyOf c \<notin> set cols) \<longrightarrow>
      fetchData (Fetched (Some cols) (Some cards)) s
        = LoadState (s\<lparr>error := Some ''Failed to load board data. Please refresh the page.'',
                       loading := False\<rparr>))
   \<and> ((\<forall>c\<in>set cards. columnKey_of (colKeyOf c) \<noteq> None \<or> colKeyOf c \<in> set cols)
        \<and> (\<exists>k\<in>set cols. columnKey_of k = None \<and> k \<noteq> ''__proto__'') \<longrightarrow>
      (\<exists>lanes. fetchData (Fetched (Some cols) (Some cards)) s = LoadLanes lanes
         \<and> set (map fst lanes) = set (map key_string columnKeys) \<union> (set cols - {''__proto__''})
         \<and> (\<forall>(k, xs)\<in>set lanes. set xs \<subseteq> toItem ` {c \<in> set cards. colKeyOf c = k})
         \<and> (\<forall>c\<in>set cards. colKeyOf c \<noteq> ''__proto__'' \<longrightarrow> row_id c \<in> idsOf (concat (map snd lanes)))
         \<and> distinct (map ident (concat (map snd lanes)))))
   \<and> (column_key c = None \<longrightarrow> columnKey_of (colKeyOf c) = Some Todo)
   \<and> (column_key c = Some (key_string lane) \<longrightarrow> columnKey_of (colKeyOf c) = Some lane)
   \<and> unique_board (ensureUniqueItems (spec_partition cards))
   \<and> fetchData (Fetched None cardsO) s = fetchData (Fetched (Some []) cardsO) s
   \<and> fetchData (Fetched colsO None) s = fetchData (Fetched colsO (Some [])) s"
proof (intro conjI impI)
  let ?next0 = "fold (\<lambda>colKey next. load_set next colKey []) cols emptyLoad"
  let ?known = "\<lambda>k. k \<in> set cols \<or> columnKey_of k \<noteq> None"
  let ?part = "\<lambda>k. map toItem (filter (\<lambda>c. colKeyOf c = k) cards)"
  {
    assume a: "(\<forall>c\<in>set cards. columnKey_of (colKeyOf c) \<noteq> None \<or> colKeyOf c \<in> set cols)
        \<and> (\<forall>k\<in>set cols. columnKey_of k \<noteq> None \<or> k = ''__proto__'')"
    then obtain nxt where n: "partitionCards cards ?next0 = Inr nxt" "wf_load nxt"
      "\<forall>k. load_get nxt k = (if ?known k then Some (?part k) else None)"
      using load_known [of cards cols] by auto
    have "fst ` set (lb_extra nxt) = {}"
      using a by (auto simp: extra_of_load [OF n(2,3)])
    then have "lb_extra nxt = []" by simp
    moreover have "lb_lanes nxt = spec_partition cards"
      using n(3) by (rule lanes_of_load)
    ultimately show "fetchData (Fetched (Some cols) (Some cards)) s
        = LoadState (s\<lparr>error := None, board := ensureUniqueItems (spec_partition cards),
                       loading := False\<rparr>)"
      using n(1) by (simp add: fetchData_def orEmpty_def)
  }
  {
    assume "\<exists>c\<in>set cards. columnKey_of (colKeyOf c) = None \<and> colKeyOf c \<notin> set cols"
    then have "partitionCards cards ?next0 = Inl TypeError" by (rule load_unknown)
    then show "fetchData (Fetched (Some cols) (Some cards)) s
        = LoadState (s\<lparr>error := Some ''Failed to load board data. Please refresh the page.'',
                       loading := False\<rparr>)"
      by (simp add: fetchData_def orEmpty_def)
  }
  {
    assume a: "(\<forall>c\<in>set cards. columnKey_of (colKeyOf c) \<noteq> None \<or> colKeyOf c \<in> set cols)
        \<and> (\<exists>k\<in>set cols. columnKey_of k = None \<and> k \<noteq> ''__proto__'')"
    then obtain nxt where n: "partitionCards cards ?next0 = Inr nxt" "wf_load nxt"
      "\<forall>k. load_get nxt k = (if ?known k then Some (?part k) else None)"
      using load_known [of cards cols] by auto
    have extra: "fst ` set (lb_extra nxt) = {k \<in> set cols. columnKey_of k = None \<and> k \<noteq> ''__proto__''}"
      using n(2,3) by (rule extra_of_load)
    with a have "lb_extra nxt \<noteq> []" by auto
    let ?lanes = "fst (filterLanes {} (entries nxt))"
    have res: "fetchData (Fetched (Some cols) (Some cards)) s = LoadLanes ?lanes"
      using n(1) \<open>lb_extra nxt \<noteq> []\<close> by (simp add: fetchData_def orEmpty_def)
    have "set (map fst ?lanes) = fst ` set (entries nxt)"
      by (simp add: filterLanes_keys)
    also have "\<dots> = key_string ` UNIV \<union> fst ` set (lb_extra nxt)"
      by (auto simp: set_entries image_Un image_image)
    also have "\<dots> = set (map key_string columnKeys) \<union> (set cols - {''__proto__''})"
      unfolding extra by (auto dest: columnKey_of_Some) (metis columnKey_of_Some option.exhaust rangeI)
    finally have keys: "set (map fst ?lanes) = set (map key_string columnKeys) \<union> (set cols - {''__proto__''})" .
    have sub: "\<forall>(k, xs)\<in>set ?lanes. set xs \<subseteq> toItem ` {c \<in> set cards. colKeyOf c = k}"
    proof (clarify)
      fix k xs x assume "(k, xs) \<in> set ?lanes" and x: "x \<in> set xs"
      then obtain ys where ys: "(k, ys) \<in> set (entries nxt)" "set xs \<subseteq> set ys"
        using filterLanes_sub by blast
      from entries_get [OF n(2) ys(1)] n(3) have "ys = ?part k"
        by (auto split: if_splits)
      with ys(2) x show "x \<in> toItem ` {c \<in> set cards. colKeyOf c = k}" by auto
    qed
    have all: "\<forall>c\<in>set cards. colKeyOf c \<noteq> ''__proto__'' \<longrightarrow> row_id c \<in> idsOf (concat (map snd ?lanes))"
    proof (intro ballI impI)
      fix c assume c: "c \<in> set cards" "colKeyOf c \<noteq> ''__proto__''"
      with a n(3) have "load_get nxt (colKeyOf c) = Some (?part (colKeyOf c))" by auto
      then have "(colKeyOf c, ?part (colKeyOf c)) \<in> set (entries nxt)"
        using c(2) by (rule get_entries)
      moreover have "toItem c \<in> set (?part (colKeyOf c))" using c(1) by simp
      ultimately have "ident (toItem c) \<in> idsOf (concat (map snd (entries nxt)))"
        by (rule in_lane_ids)
      then have "row_id c \<in> idsOf (concat (map snd (entries nxt)))"
        by simp
      then show "row_id c \<in> idsOf (concat (map snd ?lanes))"
        by (simp add: filterLanes_ids)
    qed
    have "distinct (map ident (concat (map snd ?lanes)))"
      by (rule filterLanes_distinct)
    with res keys sub all
    show "\<exists>lanes. fetchData (Fetched (Some cols) (Some cards)) s = LoadLanes lanes
         \<and> set (map fst lanes) = set (map key_string columnKeys) \<union> (set cols - {''__proto__''})
         \<and> (\<forall>(k, xs)\<in>set lanes. set xs \<subseteq> toItem ` {c \<in> set cards. colKeyOf c = k})
         \<and> (\<forall>c\<in>set cards. colKeyOf c \<noteq> ''__proto__'' \<longrightarrow> row_id c \<in> idsOf (concat (map snd lanes)))
         \<and> distinct (map ident (concat (map snd lanes)))"
      by (intro exI [of _ ?lanes] conjI)
  }
  show "columnKey_of (colKeyOf c) = Some Todo" if "column_key c = None"
    using that by (simp add: colKeyOf_def columnKey_of_def)
  show "columnKey_of (colKeyOf c) = Some lane" if "column_key c = Some (key_string lane)"
    using that by (simp add: colKeyOf_def)
  show "unique_board (ensureUniqueItems (spec_partition cards))"
    by (rule unique_ensureUniqueItems)
  show "fetchData (Fetched None cardsO) s = fetchData (Fetched (Some []) cardsO) s"
    by (simp add: fetchData_def orEmpty_def)
  show "fetchData (Fetched colsO None) s = fetchData (Fetched colsO (Some [])) s"
    by (simp add: fetchData_def orEmpty_def)
qed

theorem initial_load_partitions_witness:
  "fetchData (Fetched (Some [''todo'', ''doing'', ''done'', ''temp''])
       (Some [mkRow ''1'' ''Write spec'' None, mkRow ''2'' ''Build'' (Some ''doing''),
              mkRow ''1'' ''Write spec again'' (Some ''temp'')])) initialState
     = LoadState (initialState\<lparr>error := None,
          board := ensureUniqueItems (spec_partition
            [mkRow ''1'' ''Write spec'' None, mkRow ''2'' ''Build'' (Some ''doing''),
             mkRow ''1'' ''Write spec again'' (Some ''temp'')]),
          loading := False\<rparr>)
   \<and> map (ensureUniqueItems (spec_partition
            [mkRow ''1'' ''Write spec'' None, mkRow ''2'' ''Build'' (Some ''doing''),
             mkRow ''1'' ''Write spec again'' (Some ''temp'')])) [Todo, Doing, Done, Temp]
     = [[mkItem ''1'' ''Write spec''], [mkItem ''2'' ''Build''], [], []]
   \<and> fetchData (Fetched (Some [''todo'', ''doing'', ''done'', ''temp''])
            (Some [mkRow ''5'' ''Archive me'' (Some ''archive'')])) exampleState
     = LoadState (exampleState\<lparr>error := Some ''Failed to load board data. Please refresh the page.'',
                     loading := False\<rparr>)
   \<and> (\<exists>lanes. fetchData (Fetched (Some [''todo'', ''doing'', ''done'', ''temp'', ''archive''])
            (Some [mkRow ''5'' ''Archive me'' (Some ''archive''), mkRow ''2'' ''Build'' None])) exampleState
          = LoadLanes lanes
        \<and> lanes = [(''todo'', [mkItem ''2'' ''Build'']), (''doing'', []), (''done'', []), (''temp'', []),
                    (''archive'', [mkItem ''5'' ''Archive me''])]
        \<and> distinct (map ident (concat (map snd lanes))))
   \<and> columnKey_of (colKeyOf (mkRow ''1'' ''Write spec'' None)) = Some Todo
   \<and> columnKey_of (colKeyOf (mkRow ''2'' ''Build'' (Some ''doing''))) = Some Doing"
proof -
  let ?cols = "[''todo'', ''doing'', ''done'', ''temp'']"
  let ?cols5 = "[''todo'', ''doing'', ''done'', ''temp'', ''archive'']"
  let ?c1 = "mkRow ''1'' ''Write spec'' None"
  let ?c2 = "mkRow ''2'' ''Build'' (Some ''doing'')"
  let ?cards = "[?c1, ?c2, mkRow ''1'' ''Write spec again'' (Some ''temp'')]"
  let ?bad = "[mkRow ''5'' ''Archive me'' (Some ''archive'')]"
  let ?more = "[mkRow ''5'' ''Archive me'' (Some ''archive''), mkRow ''2'' ''Build'' None]"
  note t = initial_load_partitions
  have "(\<forall>c\<in>set ?cards. columnKey_of (colKeyOf c) \<noteq> None \<or> colKeyOf c \<in> set ?cols)
      \<and> (\<forall>k\<in>set ?cols. columnKey_of k \<noteq> None \<or> k = ''__proto__'')"
    by (simp add: mkRow_def colKeyOf_def columnKey_of_def)
  from t [of ?cards ?cols initialState ?c1 Todo, THEN conjunct1, THEN mp, OF this]
  have a: "fetchData (Fetched (Some ?cols) (Some ?cards)) initialState
        = LoadState (initialState\<lparr>error := None, board := ensureUniqueItems (spec_partition ?cards),
                        loading := False\<rparr>)" .
  have b: "map (ensureUniqueItems (spec_partition ?cards)) [Todo, Doing, Done, Temp]
     = [[mkItem ''1'' ''Write spec''], [mkItem ''2'' ''Build''], [], []]"
    by (simp add: eval_defs eval_ops_defs spec_partition_def)
  have "\<exists>c\<in>set ?bad. columnKey_of (colKeyOf c) = None \<and> colKeyOf c \<notin> set ?cols"
    by (simp add: mkRow_def colKeyOf_def columnKey_of_def)
  from t [of ?bad ?cols exampleState ?c1 Todo, THEN conjunct2, THEN conjunct1, THEN mp, OF this]
  have c: "fetchData (Fetched (Some ?cols) (Some ?bad)) exampleState
     = LoadState (exampleState\<lparr>error := Some ''Failed to load board data. Please refresh the page.'',
                     loading := False\<rparr>)" .
  have "(\<forall>c\<in>set ?more. columnKey_of (colKeyOf c) \<noteq> None \<or> colKeyOf c \<in> set ?cols5)
        \<and> (\<exists>k\<in>set ?cols5. columnKey_of k = None \<and> k \<noteq> ''__proto__'')"
    by (simp add: mkRow_def colKeyOf_def columnKey_of_def)
  from t [of ?more ?cols5 exampleState ?c1 Todo, THEN conjunct2, THEN conjunct2, THEN conjunct1,
      THEN mp, OF this]
  obtain lanes where l: "fetchData (Fetched (Some ?cols5) (Some ?more)) exampleState = LoadLanes lanes"
    and d: "distinct (map ident (concat (map snd lanes)))"
    by (elim exE conjE)
  have "fetchData (Fetched (Some ?cols5) (Some ?more)) exampleState
      = LoadLanes [(''todo'', [mkItem ''2'' ''Build'']), (''doing'', []), (''done'', []), (''temp'', []),
                    (''archive'', [mkItem ''5'' ''Archive me''])]"
    by (simp add: eval_load_defs)
  with l have v: "lanes = [(''todo'', [mkItem ''2'' ''Build'']), (''doing'', []), (''done'', []), (''temp'', []),
                    (''archive'', [mkItem ''5'' ''Archive me''])]"
    by simp
  have "column_key ?c1 = None" by (simp add: mkRow_def)
  from t [of ?cards ?cols initialState ?c1 Todo, THEN conjunct2, THEN conjunct2, THEN conjunct2,
      THEN conjunct1, THEN mp, OF this]
  have e: "columnKey_of (colKeyOf ?c1) = Some Todo" .
  have "column_key ?c2 = Some (key_string Doing)" by (simp add: mkRow_def)
  from t [of ?cards ?cols initialState ?c2 Doing, THEN conjunct2, THEN conjunct2, THEN conjunct2,
      THEN conjunct2, THEN conjunct1, THEN mp, OF this]
  have f: "columnKey_of (colKeyOf ?c2) = Some Doing" .
  from l v d have g: "\<exists>lanes. fetchData (Fetched (Some ?cols5) (Some ?more)) exampleState = LoadLanes lanes
        \<and> lanes = [(''todo'', [mkItem ''2'' ''Build'']), (''doing'', []), (''done'', []), (''temp'', []),
                    (''archive'', [mkItem ''5'' ''Archive me''])]
        \<and> distinct (map ident (concat (map snd lanes)))"
    by (intro exI [of _ lanes] conjI)
  from a b c g e f show ?thesis by (intro conjI)
qed

subsection \<open>C8: a failed remote create\<close>

text \<open>
  Claim C8. When the remote create of Add card fails, an error is surfaced and the
  board is not mutated. The second half holds. The first does not: \<^verbatim>\<open>handleAdd\<close> has
  one branch, for a response with data and no error, and in every other case (an error,
  no data, a rejected promise) the whole state, the error message included, is what it
  was. Submitting the form does not touch the message either, so after a failed create
  on a state without a message there is still none.
\<close>

theorem add_failure_sets_no_error:
  "handleAdd_reply closure col (Response (Some msg) d) s = s
   \<and> handleAdd_reply closure col (Response e None) s = s
   \<and> handleAdd_reply closure col Rejected s = s
   \<and> error (handleAdd_submit form s) = error s
   \<and> board (handleAdd_submit form s) = board s
   \<and> error (handleAdd_reply exampleBoard Todo (Response (Some ''network error'') None)
         (handleAdd_submit \<lparr>form_title = ''Plan'', form_desc = '''', form_hrefs = [],
                            form_column = Todo\<rparr> exampleState)) = None"
  by (simp add: handleAdd_reply_def handleAdd_submit_def Let_def exampleState_def initialState_def
      split: option.splits)

subsection \<open>C9: container resolution\<close>

text \<open>
  Claim C9. A column key resolves to its column even when a card has the same id
  (\<open>findContainer_column_key\<close>), and an id that is neither a column key nor the id
  of a card on the board resolves to nothing. The second half fails for the names a
  plain object inherits: \<^verbatim>\<open>"toString" in board\<close> holds on every board, so
  \<^verbatim>\<open>findContainer("toString")\<close> returns \<^verbatim>\<open>"toString"\<close>, on a board with no such card.
  A drag-over with an unknown dragged id is a no-op; with the dragged id "toString" it
  goes on to call \<^verbatim>\<open>findIndex\<close> on \<^verbatim>\<open>prev["toString"]\<close>, a function, and throws.
\<close>

theorem findContainer_inherited_name:
  "findContainer b ''toString'' = Some ''toString''
   \<and> columnKey_of ''toString'' = None
   \<and> ''toString'' \<notin> idsOf (all_items exampleBoard)
   \<and> findContainer exampleBoard ''toString'' = Some ''toString''
   \<and> findContainer exampleBoard ''9'' = None
   \<and> handleDragOver \<lparr>active_id = ''9'', over_id = Some ''todo'', below = False\<rparr> exampleState
       = Inr exampleState
   \<and> handleDragOver \<lparr>active_id = ''toString'', over_id = Some ''todo'', below = False\<rparr> exampleState
       = Inl TypeError"
proof -
  have "findContainer b ''toString'' = Some ''toString''
      \<and> columnKey_of ''toString'' = None
      \<and> ''toString'' \<notin> idsOf (all_items exampleBoard)
      \<and> findContainer exampleBoard ''toString'' = Some ''toString''
      \<and> findContainer exampleBoard ''9'' = None"
    by (simp add: eval_defs all_items_def idsOf_def)
  moreover
  have "handleDragOver \<lparr>active_id = ''9'', over_id = Some ''todo'', below = False\<rparr> exampleState
       = Inr exampleState"
    by (simp add: handleDragOver_def findContainer_def in_board_def columnKeys_def
        objectPrototypeKeys_def exampleState_def exampleBoard_def initialBoard_def mkItem_def)
  moreover
  have "handleDragOver \<lparr>active_id = ''toString'', over_id = Some ''todo'', below = False\<rparr> exampleState
       = Inl TypeError"
    by (simp add: handleDragOver_def findContainer_def in_board_def columnKeys_def
        objectPrototypeKeys_def columnKey_of_def)
  ultimately show ?thesis by (elim conjE) (intro conjI; assumption)
qed

subsection \<open>C10: the insertion index of the drag-over preview\<close>

text \<open>
  Claim C10. In a cross-column drag-over where the dragged card is in its resolved
  source column, the computed insertion index may exceed the length of the target
  sequence (over a column's empty area it is the length plus one), and yet the new
  target sequence is well formed: the previous elements in their order with the dragged
  card inserted once, and no undefined entry (the handler returns a board, not
  \<open>UndefinedEntry\<close>).
\<close>

theorem dragOver_target_wellformed:
  assumes "over_id ev = Some overId"
    and "findContainer (board s) (active_id ev) = Some (key_string a)"
    and "findContainer (board s) overId = Some (key_string ov)"
    and "a \<noteq> ov"
    and "List.find (\<lambda>item. ident item = active_id ev) (board s a) = Some it"
  shows "\<exists>s'. handleDragOver ev s = Inr s'
           \<and> board s' ov = take (nat (dragOverIndex overId (below ev) (board s ov))) (board s ov)
                             @ [it]
                             @ drop (nat (dragOverIndex overId (below ev) (board s ov))) (board s ov)
           \<and> mset (board s' ov) = mset (board s ov) + {#it#}
           \<and> length (board s' ov) = length (board s ov) + 1
           \<and> dragOverIndex (key_string ov) (below ev) (board s ov) = int (length (board s ov)) + 1"
proof -
  define j where "j = dragOverIndex overId (below ev) (board s ov)"
  have j: "0 \<le> j" by (simp add: j_def dragOverIndex_nonneg)
  have pre: "slice (board s ov) 0 j = take (nat j) (board s ov)"
    using j by (simp add: slice_front relIndex_nonneg min_def)
  have post: "slice (board s ov) j (int (length (board s ov))) = drop (nat j) (board s ov)"
    using j by (simp add: slice_back relIndex_nonneg min_def)
  have moved: "at_index (board s a) (findIndex (\<lambda>item. ident item = active_id ev) (board s a)) = Some it"
    using assms(5) by (simp add: at_index_findIndex)
  have "handleDragOver ev s = Inr (s\<lparr>board := (board s)
          (a := filter (\<lambda>item. ident item \<noteq> active_id ev) (board s a),
           ov := take (nat j) (board s ov) @ [it] @ drop (nat j) (board s ov))\<rparr>)"
    using assms(1-4) moved pre post
    by (simp add: handleDragOver_def Let_def j_def [symmetric])
  moreover have "mset (take (nat j) (board s ov) @ [it] @ drop (nat j) (board s ov))
      = mset (board s ov) + {#it#}"
    by (rule insert_mset)
  moreover have "length (take (nat j) (board s ov) @ [it] @ drop (nat j) (board s ov))
      = length (board s ov) + 1"
    by (metis One_nat_def add.commute insert_mset plus_1_eq_Suc size_add_mset size_mset
          add_mset_add_single)
  ultimately show ?thesis
    unfolding j_def [symmetric] using assms(4)
    by (auto simp: dragOverIndex_column simp del: append.simps mset_append length_append)
qed

theorem dragOver_target_witness:
  "\<exists>s'. handleDragOver \<lparr>active_id = ''1'', over_id = Some ''doing'', below = False\<rparr> exampleState = Inr s'
        \<and> board s' Doing = [mkItem ''2'' ''Build'', mkItem ''1'' ''Write spec'']
        \<and> dragOverIndex ''doing'' False (board exampleState Doing) = 2
        \<and> length (board exampleState Doing) = 1"
proof -
  let ?ev = "\<lparr>active_id = ''1'', over_id = Some ''doing'', below = False\<rparr>"
  have "findContainer (board exampleState) (active_id ?ev) = Some (key_string Todo)"
    and "findContainer (board exampleState) ''doing'' = Some (key_string Doing)"
    and "List.find (\<lambda>item. ident item = active_id ?ev) (board exampleState Todo)
           = Some (mkItem ''1'' ''Write spec'')"
    and "dragOverIndex ''doing'' False (board exampleState Doing) = 2"
    and "board exampleState Doing = [mkItem ''2'' ''Build'']"
    by (simp_all add: eval_defs)
  with dragOver_target_wellformed [of ?ev "''doing''" exampleState Todo Doing "mkItem ''1'' ''Write spec''"]
  show ?thesis by auto
qed

end
